theory Spec2Isabelle
  imports Complex_Main
begin

section \<open>The status store of db.py\<close>

text \<open>
  db.py keeps its tables in the SQLite file sense_main.db. The functions modelled here
  touch three of them: device_status (primary key device_id, a text), device_logs and
  system_alerts. A table with a primary key is a map from the key to the remaining
  columns; an append-only table is a list of rows, oldest first.

  A column value that the code only stores is a \<open>sqlval\<close>: NULL, an integer, a
  float (carried as a real, since no arithmetic is done on it) or a text. Timestamps
  (CURRENT_TIMESTAMP) are integers, None is NULL.
\<close>

datatype sqlval = SqlNull | SqlInt int | SqlReal real | SqlText string

record device_status_row =
  st_is_on :: bool
  last_switched_on :: "int option"
  last_switched_off :: "int option"
  runtime_minutes :: sqlval
  switch_count :: sqlval
  temperature_setting :: sqlval
  speed_setting :: sqlval
  updated_at :: "int option"

record device_log =
  log_device_id :: string
  log_action :: string
  log_details :: string

record system_alert =
  alert_type :: string
  title :: string
  message :: string
  alert_room_id :: "int option"
  alert_device_id :: "string option"
  is_read :: bool

record main_db =
  main_devices :: "string list"
  device_status :: "string \<rightharpoonup> device_status_row"
  device_logs :: "device_log list"
  system_alerts :: "system_alert list"

text \<open>
  \<open>update_device_status(device_id, is_on, **kwargs)\<close>, db.py lines 445-491.
  The SET list is built from \<open>is_on\<close>, one of the two switch timestamps, the
  recognised keyword arguments in the order given, and \<open>updated_at\<close>.
\<close>

definition recognised_fields :: "string list" where
  "recognised_fields =
     [''runtime_minutes'', ''switch_count'', ''temperature_setting'', ''speed_setting'']"

definition set_field :: "string \<Rightarrow> sqlval \<Rightarrow> device_status_row \<Rightarrow> device_status_row" where
  "set_field field v row =
     (if field = ''runtime_minutes'' then row\<lparr>runtime_minutes := v\<rparr>
      else if field = ''switch_count'' then row\<lparr>switch_count := v\<rparr>
      else if field = ''temperature_setting'' then row\<lparr>temperature_setting := v\<rparr>
      else if field = ''speed_setting'' then row\<lparr>speed_setting := v\<rparr>
      else row)"

fun apply_kwargs :: "(string \<times> sqlval) list \<Rightarrow> device_status_row \<Rightarrow> device_status_row" where
  "apply_kwargs [] row = row"
| "apply_kwargs ((field, v) # kwargs) row =
     apply_kwargs kwargs
       (if field \<in> set recognised_fields then set_field field v row else row)"

definition stamp_switch :: "bool \<Rightarrow> int \<Rightarrow> device_status_row \<Rightarrow> device_status_row" where
  "stamp_switch on now row =
     (if on then row\<lparr>st_is_on := on, last_switched_on := Some now\<rparr>
      else row\<lparr>st_is_on := on, last_switched_off := Some now\<rparr>)"

text \<open>
  The row that \<open>INSERT INTO device_status (device_id, is_on)\<close> creates: every other
  column takes the default of the CREATE TABLE statement (db.py lines 52-63).
\<close>

definition fresh_status :: "bool \<Rightarrow> int \<Rightarrow> device_status_row" where
  "fresh_status on now =
     \<lparr>st_is_on = on, last_switched_on = None, last_switched_off = None,
      runtime_minutes = SqlInt 0, switch_count = SqlInt 0,
      temperature_setting = SqlNull, speed_setting = SqlNull,
      updated_at = Some now\<rparr>"

text \<open>
  \<open>sqlite_error\<close> stands for an exception raised by sqlite3 anywhere in the try
  block: the handler returns False, and since commit was not reached nothing is
  stored. \<open>now\<close> is the value of CURRENT_TIMESTAMP. The UPDATE changes the row of
  \<open>device_id\<close> if there is one (rowcount 1); otherwise rowcount is 0 and the row is
  inserted. The devices table is never read, and foreign keys are not enforced by a
  connection that does not switch them on.
\<close>

definition update_device_status ::
  "bool \<Rightarrow> int \<Rightarrow> string \<Rightarrow> bool \<Rightarrow> (string \<times> sqlval) list \<Rightarrow> main_db \<Rightarrow> bool \<times> main_db" where
  "update_device_status sqlite_error now device_id on kwargs db =
     (if sqlite_error then (False, db)
      else case device_status db device_id of
        Some row \<Rightarrow>
          (True, db\<lparr>device_status := (device_status db)
             (device_id \<mapsto> (apply_kwargs kwargs (stamp_switch on now row))\<lparr>updated_at := Some now\<rparr>)\<rparr>)
      | None \<Rightarrow>
          (True, db\<lparr>device_status := (device_status db)
             (device_id \<mapsto> fresh_status on now)\<rparr>))"

text \<open>\<open>add_system_alert\<close>, db.py lines 708-726: the only writer of system_alerts.\<close>

definition add_system_alert ::
  "bool \<Rightarrow> string \<Rightarrow> string \<Rightarrow> string \<Rightarrow> int option \<Rightarrow> string option \<Rightarrow> main_db \<Rightarrow> bool \<times> main_db" where
  "add_system_alert sqlite_error ttl msg atype room dev db =
     (if sqlite_error then (False, db)
      else (True, db\<lparr>system_alerts := system_alerts db @
              [\<lparr>alert_type = atype, title = ttl, message = msg, alert_room_id = room,
                alert_device_id = dev, is_read = False\<rparr>]\<rparr>))"

section \<open>The device tables of control.py\<close>

text \<open>
  control.py reaches its tables through the connection of a SenseDB object. It names
  the columns it uses: rooms(id, room_number, occupancy, is_vip, is_critical,
  building_id, floor), devices(id, room_id, device_name, device_type, is_on,
  last_switched, status) and activity_logs(user_id, action, details). A table is the
  list of its rows in scan order; id is the primary key of rooms and of devices.
  Column \<open>id\<close> is written \<open>r_id\<close> and \<open>d_id\<close>, column \<open>floor\<close> is \<open>r_floor\<close>.
  Timestamps are integers counting microseconds; None is NULL.

  Modelled from the spec: the rooms table carries no exit time in any query of
  control.py; \<open>last_exit_time\<close> is the last-exit time from which the spec measures
  how long a room has been empty.
\<close>

record room =
  r_id :: int
  room_number :: int
  occupancy :: int
  is_vip :: bool
  is_critical :: bool
  building_id :: int
  r_floor :: int
  last_exit_time :: "int option"

record device =
  d_id :: int
  room_id :: int
  device_name :: string
  device_type :: string
  is_on :: bool
  last_switched :: "int option"
  status :: string

record activity_log =
  user_id :: int
  action :: string
  details :: string

record sense_db =
  rooms :: "room list"
  devices :: "device list"
  activity_logs :: "activity_log list"

text \<open>
  \<open>datetime.now()\<close> is read several times in one pass. A clock gives the value of
  its n-th reading; a pass carries the number of readings made so far next to the
  database.
\<close>

type_synonym clock = "nat \<Rightarrow> int"

definition minutes :: "int \<Rightarrow> int" where
  "minutes m = m * 60000000"

definition hours :: "int \<Rightarrow> int" where
  "hours h = h * 3600000000"

subsection \<open>Formatting\<close>

text \<open>Python's \<open>str\<close> of an integer, and of an optional integer (\<open>None\<close>).\<close>

definition digit_char :: "nat \<Rightarrow> char" where
  "digit_char d = ''0123456789'' ! d"

fun digits :: "nat \<Rightarrow> string" where
  "digits n = (if n < 10 then [digit_char n] else digits (n div 10) @ [digit_char (n mod 10)])"

declare digits.simps [simp del]

definition str_int :: "int \<Rightarrow> string" where
  "str_int i = (if i < 0 then CHR ''-'' # digits (nat (- i)) else digits (nat i))"

definition str_opt :: "int option \<Rightarrow> string" where
  "str_opt a = (case a of None \<Rightarrow> ''None'' | Some i \<Rightarrow> str_int i)"

subsection \<open>Statements shared by the rules\<close>

text \<open>\<open>UPDATE devices SET is_on = ?, last_switched = ? WHERE id = ?\<close>\<close>

definition set_is_on :: "bool \<Rightarrow> int \<Rightarrow> int \<Rightarrow> device list \<Rightarrow> device list" where
  "set_is_on b t i ds =
     map (\<lambda>d. if d_id d = i then d\<lparr>is_on := b, last_switched := Some t\<rparr> else d) ds"

definition log_activity :: "int \<Rightarrow> string \<Rightarrow> string \<Rightarrow> sense_db \<Rightarrow> sense_db" where
  "log_activity u a dt db =
     db\<lparr>activity_logs := activity_logs db @ [\<lparr>user_id = u, action = a, details = dt\<rparr>]\<rparr>"

subsection \<open>Rule A: auto_control_empty_rooms, control.py lines 41-78\<close>

definition auto_off_types :: "string list" where
  "auto_off_types = [''light'', ''fan'', ''projector'']"

definition auto_off_details :: "int \<Rightarrow> string" where
  "auto_off_details device_id = ''Empty room auto-control: Device '' @ str_int device_id"

text \<open>\<open>SELECT id, device_type FROM devices WHERE room_id = ? AND is_on = TRUE\<close>\<close>

definition active_devices :: "int \<Rightarrow> sense_db \<Rightarrow> (int \<times> string) list" where
  "active_devices rid db =
     map (\<lambda>d. (d_id d, device_type d)) (filter (\<lambda>d. room_id d = rid \<and> is_on d) (devices db))"

fun auto_off_devices :: "clock \<Rightarrow> (int \<times> string) list \<Rightarrow> nat \<times> sense_db \<Rightarrow> nat \<times> sense_db" where
  "auto_off_devices clk [] s = s"
| "auto_off_devices clk ((device_id, dtype) # rest) (n, db) =
     auto_off_devices clk rest
       (if dtype \<in> set auto_off_types
        then (Suc n, log_activity 1 ''Auto OFF'' (auto_off_details device_id)
                       (db\<lparr>devices := set_is_on False (clk n) device_id (devices db)\<rparr>))
        else (n, db))"

fun auto_off_rooms :: "clock \<Rightarrow> room list \<Rightarrow> nat \<times> sense_db \<Rightarrow> nat \<times> sense_db" where
  "auto_off_rooms clk [] s = s"
| "auto_off_rooms clk (rm # rest) (n, db) =
     auto_off_rooms clk rest (auto_off_devices clk (active_devices (r_id rm) db) (n, db))"

text \<open>
  \<open>SELECT ... FROM rooms r WHERE r.occupancy = 0 AND r.is_critical = FALSE\<close>.
  The source computes \<open>empty_threshold\<close> from a first reading of the clock and does
  not use it.
\<close>

definition empty_rooms :: "sense_db \<Rightarrow> room list" where
  "empty_rooms db = filter (\<lambda>r. occupancy r = 0 \<and> \<not> is_critical r) (rooms db)"

definition auto_control_empty_rooms :: "bool \<Rightarrow> clock \<Rightarrow> nat \<times> sense_db \<Rightarrow> nat \<times> sense_db" where
  "auto_control_empty_rooms auto_control_active clk s =
     (if \<not> auto_control_active then s
      else case s of (n, db) \<Rightarrow>
        (let empty_threshold = clk n - minutes 15
         in auto_off_rooms clk (empty_rooms db) (Suc n, db)))"

subsection \<open>Rule B: ac_rotation_system, control.py lines 80-126\<close>

text \<open>
  The overdue query compares \<open>last_switched < ?\<close>; a comparison with NULL selects
  nothing.
\<close>

definition overdue :: "int \<Rightarrow> device \<Rightarrow> bool" where
  "overdue t d = (device_type d = ''ac'' \<and> is_on d \<and>
     (case last_switched d of None \<Rightarrow> False | Some ls \<Rightarrow> ls < t))"

definition overdue_acs :: "int \<Rightarrow> sense_db \<Rightarrow> (int \<times> int \<times> string \<times> int option) list" where
  "overdue_acs t db =
     map (\<lambda>d. (d_id d, room_id d, device_name d, last_switched d)) (filter (overdue t) (devices db))"

definition eligible :: "int \<Rightarrow> device \<Rightarrow> bool" where
  "eligible rid d = (room_id d = rid \<and> device_type d = ''ac'' \<and> \<not> is_on d \<and> status d = ''active'')"

text \<open>
  \<open>ORDER BY last_switched ASC LIMIT 1\<close>: NULL sorts before every value; among rows
  with the same key the first in scan order is taken.
\<close>

fun sql_less :: "int option \<Rightarrow> int option \<Rightarrow> bool" where
  "sql_less None None = False"
| "sql_less None (Some b) = True"
| "sql_less (Some a) None = False"
| "sql_less (Some a) (Some b) = (a < b)"

fun oldest :: "device list \<Rightarrow> device option" where
  "oldest [] = None"
| "oldest (d # ds) =
     (case oldest ds of
        None \<Rightarrow> Some d
      | Some e \<Rightarrow> if sql_less (last_switched e) (last_switched d) then Some e else Some d)"

definition find_replacement :: "int \<Rightarrow> sense_db \<Rightarrow> int option" where
  "find_replacement rid db = map_option d_id (oldest (filter (eligible rid) (devices db)))"

definition rotation_details :: "int \<Rightarrow> int \<Rightarrow> int \<Rightarrow> string" where
  "rotation_details rid ac_id replacement_id =
     ''Room '' @ str_int rid @ '': AC '' @ str_int ac_id @ '' -> AC '' @ str_int replacement_id"

fun rotate_acs ::
  "clock \<Rightarrow> (int \<times> int \<times> string \<times> int option) list \<Rightarrow> nat \<times> sense_db \<Rightarrow> nat \<times> sense_db" where
  "rotate_acs clk [] s = s"
| "rotate_acs clk ((ac_id, rid, ac_name, ls) # rest) (n, db) =
     rotate_acs clk rest
       (case find_replacement rid db of
          None \<Rightarrow> (n, db)
        | Some replacement_id \<Rightarrow>
            (Suc n, log_activity 1 ''AC Rotation'' (rotation_details rid ac_id replacement_id)
               (db\<lparr>devices := set_is_on True (clk n) replacement_id
                                 (set_is_on False (clk n) ac_id (devices db))\<rparr>)))"

definition ac_rotation_system :: "bool \<Rightarrow> clock \<Rightarrow> nat \<times> sense_db \<Rightarrow> nat \<times> sense_db" where
  "ac_rotation_system ac_rotation_active clk s =
     (if \<not> ac_rotation_active then s
      else case s of (n, db) \<Rightarrow>
        (let eight_hours_ago = clk n - hours 8
         in rotate_acs clk (overdue_acs eight_hours_ago db) (Suc n, db)))"

subsection \<open>Rule C: emergency_shutdown, control.py lines 176-205\<close>

text \<open>
  The scope arguments are None or an integer; \<open>if building_id:\<close> and \<open>if floor:\<close>
  take the branch for an integer other than 0.
\<close>

definition truthy :: "int option \<Rightarrow> bool" where
  "truthy a = (case a of None \<Rightarrow> False | Some v \<Rightarrow> v \<noteq> 0)"

definition in_scope :: "int option \<Rightarrow> int option \<Rightarrow> room \<Rightarrow> bool" where
  "in_scope building fl r =
     (\<not> is_critical r
      \<and> (if truthy building then Some (building_id r) = building else True)
      \<and> (if truthy fl then Some (r_floor r) = fl else True))"

text \<open>The subquery \<open>SELECT id FROM rooms WHERE is_critical = FALSE [AND ...]\<close>.\<close>

definition scope_rooms :: "int option \<Rightarrow> int option \<Rightarrow> sense_db \<Rightarrow> int list" where
  "scope_rooms building fl db = map r_id (filter (in_scope building fl) (rooms db))"

definition shutdown_details :: "int option \<Rightarrow> int option \<Rightarrow> string" where
  "shutdown_details building fl = ''Building: '' @ str_opt building @ '', Floor: '' @ str_opt fl"

definition emergency_shutdown ::
  "clock \<Rightarrow> int option \<Rightarrow> int option \<Rightarrow> nat \<times> sense_db \<Rightarrow> nat \<times> sense_db" where
  "emergency_shutdown clk building fl s =
     (case s of (n, db) \<Rightarrow>
        (Suc n, log_activity 1 ''Emergency Shutdown'' (shutdown_details building fl)
           (db\<lparr>devices :=
              map (\<lambda>d. if room_id d \<in> set (scope_rooms building fl db)
                       then d\<lparr>is_on := False, last_switched := Some (clk n)\<rparr> else d)
                  (devices db)\<rparr>)))"

subsection \<open>The toggle command: toggle_device, control.py lines 17-39\<close>

text \<open>
  \<open>get_room_by_device\<close> joins rooms and devices on the device's room and takes the
  first row.
\<close>

definition get_room_by_device :: "int \<Rightarrow> sense_db \<Rightarrow> (room \<times> string \<times> string) option" where
  "get_room_by_device device_id db =
     (case concat (map (\<lambda>d. map (\<lambda>r. (r, device_name d, device_type d))
                               (filter (\<lambda>r. r_id r = room_id d) (rooms db)))
                       (filter (\<lambda>d. d_id d = device_id) (devices db))) of
        [] \<Rightarrow> None
      | x # rest \<Rightarrow> Some x)"

definition vip_details :: "int \<Rightarrow> string" where
  "vip_details device_id = ''VIP room device control: Device '' @ str_int device_id"

definition log_vip_access :: "int \<Rightarrow> int \<Rightarrow> sense_db \<Rightarrow> sense_db" where
  "log_vip_access uid device_id db = log_activity uid ''VIP Access'' (vip_details device_id) db"

text \<open>
  \<open>SenseDB.toggle_device\<close> is not part of the sources: it is the parameter
  \<open>db_toggle\<close>, any function that returns the new state or None together with the
  database it leaves.
\<close>

definition toggle_device ::
  "(int \<Rightarrow> int \<Rightarrow> sense_db \<Rightarrow> bool option \<times> sense_db) \<Rightarrow> int \<Rightarrow> int \<Rightarrow> bool \<Rightarrow> sense_db
     \<Rightarrow> (bool \<times> string) \<times> sense_db" where
  "toggle_device db_toggle device_id uid force db =
     (case get_room_by_device device_id db of
        None \<Rightarrow> ((False, ''Device not found''), db)
      | Some (rm, dname, dtype) \<Rightarrow>
          if is_critical rm \<and> \<not> force
          then ((False, ''Critical room - Admin permission required''), db)
          else (case db_toggle device_id uid
                       (if is_vip rm then log_vip_access uid device_id db else db) of
                  (Some new_state, db') \<Rightarrow>
                    ((True, ''Device '' @ (if new_state then ''ON'' else ''OFF'')), db')
                | (None, db') \<Rightarrow> ((False, ''Failed to toggle device''), db')))"

section \<open>The hourly job of scheduler.py\<close>

text \<open>
  scheduler.py line 30 registers \<open>controller.ac_rotation_system\<close> as the hourly job.
  The facility keeps two stores: the tables the controller reaches through its
  connection, and the store of db.py, where \<open>add_system_alert\<close> writes the alerts. The
  job works through the controller's connection only and calls nothing of db.py, so
  the second store is handed on as it is.
\<close>

record stores =
  control_store :: sense_db
  main_store :: main_db

definition hourly_ac_rotation :: "bool \<Rightarrow> clock \<Rightarrow> nat \<times> stores \<Rightarrow> nat \<times> stores" where
  "hourly_ac_rotation ac_rotation_active clk s =
     (case s of (n, w) \<Rightarrow>
        (case ac_rotation_system ac_rotation_active clk (n, control_store w) of
           (n', db') \<Rightarrow> (n', w\<lparr>control_store := db'\<rparr>)))"

section \<open>Primary keys\<close>

text \<open>
  \<open>id\<close> is the primary key of rooms and of devices: no two rows of a table share it.
\<close>

definition primary_keys :: "sense_db \<Rightarrow> bool" where
  "primary_keys db = (distinct (map r_id (rooms db)) \<and> distinct (map d_id (devices db)))"

section \<open>Notions used to state what a pass changes\<close>

text \<open>
  \<open>only_switched d d'\<close>: row \<open>d'\<close> is row \<open>d\<close> except for the columns is_on and
  last_switched, the only columns the rules write. \<open>frame_row S d d'\<close>: moreover the
  row is unchanged unless its room is one of \<open>S\<close>. \<open>keys\<close> are the identifier and
  the room of each row, which no rule writes.
\<close>

definition only_switched :: "device \<Rightarrow> device \<Rightarrow> bool" where
  "only_switched d d' = (d' = d\<lparr>is_on := is_on d', last_switched := last_switched d'\<rparr>)"

definition frame_row :: "int set \<Rightarrow> device \<Rightarrow> device \<Rightarrow> bool" where
  "frame_row S d d' = (only_switched d d' \<and> (room_id d \<in> S \<or> d' = d))"

definition keys :: "device list \<Rightarrow> (int \<times> int) list" where
  "keys ds = map (\<lambda>d. (d_id d, room_id d)) ds"

text \<open>The log entry of one automatic switch-off, and the devices a room's batch switches.\<close>

definition auto_off_entry :: "int \<Rightarrow> activity_log" where
  "auto_off_entry device_id =
     \<lparr>user_id = 1, action = ''Auto OFF'', details = auto_off_details device_id\<rparr>"

definition auto_off_targets :: "(int \<times> string) list \<Rightarrow> int list" where
  "auto_off_targets acts = map fst (filter (\<lambda>a. snd a \<in> set auto_off_types) acts)"

definition rotation_entry :: "int \<Rightarrow> int \<Rightarrow> int \<Rightarrow> activity_log" where
  "rotation_entry rid ac_id replacement_id =
     \<lparr>user_id = 1, action = ''AC Rotation'',
      details = rotation_details rid ac_id replacement_id\<rparr>"

text \<open>The log entries of a list of rotations (room, overdue unit, replacement).\<close>

definition rotation_log :: "(int \<times> int \<times> int) list \<Rightarrow> activity_log list" where
  "rotation_log rots =
     map (\<lambda>(rid, ac_id, replacement_id). rotation_entry rid ac_id replacement_id) rots"

section \<open>Sample data\<close>

text \<open>
  A facility of three rooms. Room 1 (building 1) is empty and holds a fan, a light
  and two air conditioners, one running since time 0 and one idle. Room 2 (building 1)
  is critical and holds a running and an idle air conditioner and a fan. Room 3
  (building 2, floor 2) is occupied and holds one running air conditioner and a fan. The
  clock starts nine hours after time 0, one minute after room 1 was left.
\<close>

definition mk_room :: "int \<Rightarrow> int \<Rightarrow> bool \<Rightarrow> bool \<Rightarrow> int \<Rightarrow> int \<Rightarrow> int option \<Rightarrow> room" where
  "mk_room i occ vip crit b fl ex =
     \<lparr>r_id = i, room_number = 100 + i, occupancy = occ, is_vip = vip, is_critical = crit,
      building_id = b, r_floor = fl, last_exit_time = ex\<rparr>"

definition mk_device :: "int \<Rightarrow> int \<Rightarrow> string \<Rightarrow> bool \<Rightarrow> int option \<Rightarrow> device" where
  "mk_device i rid ty on ls =
     \<lparr>d_id = i, room_id = rid, device_name = ty, device_type = ty, is_on = on,
      last_switched = ls, status = ''active''\<rparr>"

definition clk0 :: clock where
  "clk0 n = hours 9 + int n"

definition sdb :: sense_db where
  "sdb = \<lparr>rooms =
            [mk_room 1 0 False False 1 0 (Some (hours 9 - minutes 1)),
             mk_room 2 0 False True 1 1 None,
             mk_room 3 4 True False 2 2 None],
          devices =
            [mk_device 10 1 ''fan'' True (Some 7),
             mk_device 11 1 ''ac'' True (Some 0),
             mk_device 12 1 ''light'' True (Some 7),
             mk_device 13 1 ''ac'' False (Some 5),
             mk_device 20 2 ''ac'' True (Some 0),
             mk_device 21 2 ''ac'' False None,
             mk_device 22 2 ''fan'' True (Some 7),
             mk_device 30 3 ''ac'' True (Some 0),
             mk_device 31 3 ''fan'' True (Some 7)],
          activity_logs = []\<rparr>"

definition db0 :: main_db where
  "db0 = \<lparr>main_devices = [''FAN-001-01''],
          device_status = [''FAN-001-01'' \<mapsto>
            \<lparr>st_is_on = False, last_switched_on = Some 3, last_switched_off = Some 5,
             runtime_minutes = SqlInt 0, switch_count = SqlInt 7,
             temperature_setting = SqlNull, speed_setting = SqlInt 2,
             updated_at = Some 5\<rparr>],
          device_logs = [], system_alerts = []\<rparr>"

text \<open>Both stores of the sample facility.\<close>

definition sstores :: stores where
  "sstores = \<lparr>control_store = sdb, main_store = db0\<rparr>"

text \<open>
  A clock that starts exactly eight hours after time 0, and a room with two running
  air conditioners, both overdue under \<open>clk0\<close>, and one idle spare.
\<close>

definition clk8 :: clock where
  "clk8 n = hours 8 + int n"

definition sdb2 :: sense_db where
  "sdb2 = \<lparr>rooms = [mk_room 1 2 False False 1 0 None],
           devices =
             [mk_device 40 1 ''ac'' True (Some 0),
              mk_device 41 1 ''ac'' True (Some 0),
              mk_device 42 1 ''ac'' False (Some 5)],
           activity_logs = []\<rparr>"

section \<open>Properties of update_device_status\<close>

lemma apply_kwargs_keeps_switch_fields:
  "st_is_on (apply_kwargs kwargs row) = st_is_on row \<and>
   last_switched_on (apply_kwargs kwargs row) = last_switched_on row \<and>
   last_switched_off (apply_kwargs kwargs row) = last_switched_off row"
  by (induction kwargs row rule: apply_kwargs.induct) (simp_all add: set_field_def)

lemma apply_kwargs_switch_count:
  "''switch_count'' \<notin> fst ` set kwargs \<Longrightarrow>
   switch_count (apply_kwargs kwargs row) = switch_count row"
  by (induction kwargs row rule: apply_kwargs.induct) (auto simp add: set_field_def)



text \<open>
  C8, as the code has it: for a device that has a status row, a call that raises
  nothing returns True, appends no log entry, sets is_on to the requested value and
  stamps updated_at and the switch timestamp of the requested state
  (last_switched_on for on, last_switched_off for off) with the current time, whether
  or not is_on changed; the other switch timestamp is kept, and switch_count is kept
  unless the caller passes switch_count.
\<close>

theorem update_device_status_existing_row:
  assumes "device_status db device_id = Some row"
    and "update_device_status False now device_id on kwargs db = (ok, db')"
  shows "ok \<and> device_logs db' = device_logs db
     \<and> (\<exists>row'. device_status db' device_id = Some row'
          \<and> st_is_on row' = on
          \<and> updated_at row' = Some now
          \<and> (if on then last_switched_on row' = Some now \<and> last_switched_off row' = last_switched_off row
              else last_switched_off row' = Some now \<and> last_switched_on row' = last_switched_on row)
          \<and> (''switch_count'' \<notin> fst ` set kwargs \<longrightarrow> switch_count row' = switch_count row))"
  using assms
  by (cases on)
     (auto simp add: update_device_status_def apply_kwargs_keeps_switch_fields
        apply_kwargs_switch_count stamp_switch_def)

theorem update_device_status_existing_row_witness:
  "device_status db0 ''FAN-001-01'' \<noteq> None
   \<and> (\<exists>row'. device_status (snd (update_device_status False 10 ''FAN-001-01'' True
          [(''speed_setting'', SqlInt 3)] db0)) ''FAN-001-01'' = Some row'
        \<and> st_is_on row' \<and> last_switched_on row' = Some 10 \<and> last_switched_off row' = Some 5
        \<and> switch_count row' = SqlInt 7)"
  using update_device_status_existing_row [of db0 "''FAN-001-01''" _ 10 True
     "[(''speed_setting'', SqlInt 3)]" True
     "snd (update_device_status False 10 ''FAN-001-01'' True [(''speed_setting'', SqlInt 3)] db0)"]
  by (simp add: db0_def update_device_status_def)

text \<open>
  C8 as stated fails: switching off a device that is already off (switched
  off at 5) at time 10 moves last_switched_off to 10, and switching it on leaves
  switch_count at 7.
\<close>

theorem update_device_status_restamps_counterexample:
  "device_status db0 ''FAN-001-01'' \<noteq> None
   \<and> st_is_on (the (device_status db0 ''FAN-001-01'')) = False
   \<and> last_switched_off (the (device_status db0 ''FAN-001-01'')) = Some 5
   \<and> fst (update_device_status False 10 ''FAN-001-01'' False [] db0) = True
   \<and> last_switched_off (the (device_status
        (snd (update_device_status False 10 ''FAN-001-01'' False [] db0)) ''FAN-001-01'')) = Some 10
   \<and> snd (update_device_status False 10 ''FAN-001-01'' False [] db0) \<noteq> db0
   \<and> st_is_on (the (device_status
        (snd (update_device_status False 10 ''FAN-001-01'' True [] db0)) ''FAN-001-01'')) = True
   \<and> switch_count (the (device_status db0 ''FAN-001-01'')) = SqlInt 7
   \<and> switch_count (the (device_status
        (snd (update_device_status False 10 ''FAN-001-01'' True [] db0)) ''FAN-001-01'')) = SqlInt 7"
  apply (simp add: update_device_status_def db0_def stamp_switch_def)
  apply (rule notI)
  apply (drule_tac f="\<lambda>f. f ''FAN-001-01''" in arg_cong)
  apply simp
  done

section \<open>The toggle command\<close>

lemma filter_key_unique:
  "distinct (map f xs) \<Longrightarrow> x \<in> set xs \<Longrightarrow> filter (\<lambda>y. f y = f x) xs = [x]"
proof (induction xs)
  case Nil
  then show ?case by simp
next
  case (Cons a xs)
  show ?case
  proof (cases "a = x")
    case True
    with Cons.prems have "\<forall>y\<in>set xs. f y \<noteq> f x" by (auto simp: image_iff)
    then have "filter (\<lambda>y. f y = f x) xs = []" by (simp add: filter_empty_conv)
    with True show ?thesis by simp
  next
    case False
    with Cons.prems have "x \<in> set xs" and "f a \<noteq> f x" by (auto simp: image_iff)
    with Cons show ?thesis by simp
  qed
qed

lemma get_room_by_device_resolves:
  assumes "primary_keys db" and "d \<in> set (devices db)" and "r \<in> set (rooms db)"
    and "r_id r = room_id d"
  shows "get_room_by_device (d_id d) db = Some (r, device_name d, device_type d)"
proof -
  have 1: "filter (\<lambda>e. d_id e = d_id d) (devices db) = [d]"
    using assms filter_key_unique [of d_id "devices db" d] by (simp add: primary_keys_def)
  have 2: "filter (\<lambda>q. r_id q = room_id d) (rooms db) = [r]"
    using assms filter_key_unique [of r_id "rooms db" r] by (simp add: primary_keys_def)
  show ?thesis by (simp add: get_room_by_device_def 1 2)
qed

lemma get_room_by_device_absent:
  "\<forall>d\<in>set (devices db). d_id d \<noteq> device_id \<Longrightarrow> get_room_by_device device_id db = None"
proof -
  assume "\<forall>d\<in>set (devices db). d_id d \<noteq> device_id"
  then have "filter (\<lambda>d. d_id d = device_id) (devices db) = []"
    by (simp add: filter_empty_conv)
  then show ?thesis by (simp add: get_room_by_device_def)
qed

lemma primary_keys_sdb: "primary_keys sdb"
  by (simp add: primary_keys_def sdb_def mk_room_def mk_device_def)

text \<open>
  C4: a toggle for an identifier that no device row carries returns
  (False, "Device not found") and leaves the database as it was; a toggle without
  force for a device whose room is critical returns (False, "Critical room - Admin
  permission required") and leaves the database as it was. Both hold for any
  SenseDB.toggle_device, which is not reached.
\<close>

theorem toggle_device_rejects:
  "((\<forall>d\<in>set (devices db). d_id d \<noteq> device_id) \<longrightarrow>
      toggle_device db_toggle device_id uid force db = ((False, ''Device not found''), db))
   \<and> (primary_keys db \<and> d \<in> set (devices db) \<and> r \<in> set (rooms db) \<and> r_id r = room_id d
        \<and> is_critical r \<and> \<not> force \<longrightarrow>
      toggle_device db_toggle (d_id d) uid force db =
        ((False, ''Critical room - Admin permission required''), db))"
  by (auto simp add: toggle_device_def get_room_by_device_absent get_room_by_device_resolves)

theorem toggle_device_rejects_witness:
  "99 \<notin> set (map d_id (devices sdb))
   \<and> toggle_device (\<lambda>i u db. (None, db)) 99 1 True sdb = ((False, ''Device not found''), sdb)
   \<and> primary_keys sdb \<and> mk_device 20 2 ''ac'' True (Some 0) \<in> set (devices sdb)
   \<and> mk_room 2 0 False True 1 1 None \<in> set (rooms sdb)
   \<and> is_critical (mk_room 2 0 False True 1 1 None)
   \<and> toggle_device (\<lambda>i u db. (None, db)) 20 1 False sdb =
        ((False, ''Critical room - Admin permission required''), sdb)"
  using toggle_device_rejects [of sdb 99 "\<lambda>i u db. (None, db)" 1 True]
    toggle_device_rejects [of sdb 20 "\<lambda>i u db. (None, db)" 1 False "mk_device 20 2 ''ac'' True (Some 0)"
      "mk_room 2 0 False True 1 1 None"]
  by (simp add: primary_keys_def sdb_def mk_room_def mk_device_def)

section \<open>Formatting is injective\<close>

lemma digit_char_code: "d < 10 \<Longrightarrow> of_char (digit_char d) = 48 + d"
proof -
  assume "d < 10"
  then have "d \<in> {0, 1, 2, 3, 4, 5, 6, 7, 8, 9}" by auto
  then show ?thesis by (auto simp add: digit_char_def)
qed

lemma digit_char_inj: "d < 10 \<Longrightarrow> e < 10 \<Longrightarrow> digit_char d = digit_char e \<Longrightarrow> d = e"
proof -
  assume a: "d < 10" "e < 10" and eq: "digit_char d = digit_char e"
  from eq have "(of_char (digit_char d) :: nat) = of_char (digit_char e)" by (rule arg_cong)
  then have "48 + d = 48 + e" using a by (simp only: digit_char_code)
  then show ?thesis by simp
qed

lemma digit_char_plain: "d < 10 \<Longrightarrow> digit_char d \<notin> {CHR ''-'', CHR '' '', CHR '':''}"
proof -
  assume "d < 10"
  then have "d \<in> {0, 1, 2, 3, 4, 5, 6, 7, 8, 9}" by auto
  then show ?thesis by (auto simp add: digit_char_def)
qed

lemma digits_nonempty: "digits n \<noteq> []"
  by (subst digits.simps) simp

lemma digits_plain: "c \<in> set (digits n) \<Longrightarrow> c \<notin> {CHR ''-'', CHR '' '', CHR '':''}"
proof (induction n rule: digits.induct)
  case (1 n)
  show ?case
  proof (cases "n < 10")
    case True
    with "1.prems" have "c = digit_char n" by (subst (asm) digits.simps) simp
    with True show ?thesis using digit_char_plain [of n] by simp
  next
    case False
    with "1.prems" have "c \<in> set (digits (n div 10)) \<or> c = digit_char (n mod 10)"
      by (subst (asm) digits.simps) auto
    then show ?thesis
    proof
      assume "c \<in> set (digits (n div 10))"
      with False "1.IH" show ?thesis by simp
    next
      assume "c = digit_char (n mod 10)"
      then show ?thesis using digit_char_plain [of "n mod 10"] by simp
    qed
  qed
qed

lemma digits_inj: "digits m = digits n \<Longrightarrow> m = n"
proof (induction m arbitrary: n rule: digits.induct)
  case (1 m)
  show ?case
  proof (cases "m < 10")
    case True
    then have m: "digits m = [digit_char m]" by (subst digits.simps) simp
    show ?thesis
    proof (cases "n < 10")
      case n: True
      then have "digits n = [digit_char n]" by (subst digits.simps) simp
      with m "1.prems" True n show ?thesis using digit_char_inj by simp
    next
      case n: False
      then have "digits n = digits (n div 10) @ [digit_char (n mod 10)]"
        by (subst digits.simps) simp
      with m "1.prems" have "digits (n div 10) = []" by simp
      then show ?thesis using digits_nonempty by simp
    qed
  next
    case False
    then have m: "digits m = digits (m div 10) @ [digit_char (m mod 10)]"
      by (subst digits.simps) simp
    show ?thesis
    proof (cases "n < 10")
      case n: True
      then have "digits n = [digit_char n]" by (subst digits.simps) simp
      with m "1.prems" have "digits (m div 10) = []" by simp
      then show ?thesis using digits_nonempty by simp
    next
      case n: False
      then have "digits n = digits (n div 10) @ [digit_char (n mod 10)]"
        by (subst digits.simps) simp
      with m "1.prems" have a: "digits (m div 10) = digits (n div 10)"
        and b: "digit_char (m mod 10) = digit_char (n mod 10)" by simp_all
      from a False "1.IH" have "m div 10 = n div 10" by simp
      moreover from b have "m mod 10 = n mod 10" using digit_char_inj [of "m mod 10" "n mod 10"] by simp
      ultimately show ?thesis by (metis div_mult_mod_eq)
    qed
  qed
qed

lemma str_int_inj: "str_int i = str_int j \<Longrightarrow> i = j"
proof -
  assume eq: "str_int i = str_int j"
  have nd: "CHR ''-'' \<notin> set (digits k)" for k using digits_plain [of "CHR ''-''" k] by auto
  have hdne: "digits k \<noteq> CHR ''-'' # xs" for k xs
    using nd [of k] by (metis list.set_intros(1))
  show ?thesis
  proof (cases "i < 0")
    case True
    show ?thesis
    proof (cases "j < 0")
      case j: True
      with True eq have "digits (nat (- i)) = digits (nat (- j))" by (simp add: str_int_def)
      then have "nat (- i) = nat (- j)" by (rule digits_inj)
      with True j show ?thesis by simp
    next
      case j: False
      with True eq hdne show ?thesis by (simp add: str_int_def) metis
    qed
  next
    case False
    show ?thesis
    proof (cases "j < 0")
      case j: True
      with False eq hdne show ?thesis by (simp add: str_int_def)
    next
      case j: False
      with False eq have "digits (nat i) = digits (nat j)" by (simp add: str_int_def)
      then have "nat i = nat j" by (rule digits_inj)
      with False j show ?thesis by simp
    qed
  qed
qed

lemma str_int_plain: "c \<in> set (str_int i) \<Longrightarrow> c \<noteq> CHR '' '' \<and> c \<noteq> CHR '':''"
  using digits_plain [of c] by (auto simp add: str_int_def split: if_splits)

section \<open>Facts about the sample data\<close>

lemma devices_sdb:
  "devices sdb =
     [mk_device 10 1 ''fan'' True (Some 7), mk_device 11 1 ''ac'' True (Some 0),
      mk_device 12 1 ''light'' True (Some 7), mk_device 13 1 ''ac'' False (Some 5),
      mk_device 20 2 ''ac'' True (Some 0), mk_device 21 2 ''ac'' False None,
      mk_device 22 2 ''fan'' True (Some 7), mk_device 30 3 ''ac'' True (Some 0),
      mk_device 31 3 ''fan'' True (Some 7)]"
  by (simp add: sdb_def)

lemma rooms_sdb:
  "rooms sdb =
     [mk_room 1 0 False False 1 0 (Some (hours 9 - minutes 1)),
      mk_room 2 0 False True 1 1 None, mk_room 3 4 True False 2 2 None]"
  by (simp add: sdb_def)

lemma logs_sdb: "activity_logs sdb = []"
  by (simp add: sdb_def)

lemma sdb_scope_building1: "scope_rooms (Some 1) None sdb = [1]"
  by (simp add: scope_rooms_def in_scope_def truthy_def rooms_sdb mk_room_def)

lemma sdb_scope_floor0: "scope_rooms None (Some 0) sdb = [1, 3]"
  by (simp add: scope_rooms_def in_scope_def truthy_def rooms_sdb mk_room_def)

lemma sdb_shutdown_building1:
  "emergency_shutdown clk0 (Some 1) None (0, sdb) =
     (1, sdb\<lparr>devices :=
             [mk_device 10 1 ''fan'' False (Some (clk0 0)),
              mk_device 11 1 ''ac'' False (Some (clk0 0)),
              mk_device 12 1 ''light'' False (Some (clk0 0)),
              mk_device 13 1 ''ac'' False (Some (clk0 0)),
              mk_device 20 2 ''ac'' True (Some 0),
              mk_device 21 2 ''ac'' False None,
              mk_device 22 2 ''fan'' True (Some 7),
              mk_device 30 3 ''ac'' True (Some 0),
              mk_device 31 3 ''fan'' True (Some 7)],
            activity_logs := [\<lparr>user_id = 1, action = ''Emergency Shutdown'',
                                details = shutdown_details (Some 1) None\<rparr>]\<rparr>)"
  by (simp add: emergency_shutdown_def sdb_scope_building1 devices_sdb logs_sdb
      log_activity_def mk_device_def)


lemma sdb_shutdown_floor0:
  "emergency_shutdown clk0 None (Some 0) (0, sdb) =
     (1, sdb\<lparr>devices :=
             [mk_device 10 1 ''fan'' False (Some (clk0 0)),
              mk_device 11 1 ''ac'' False (Some (clk0 0)),
              mk_device 12 1 ''light'' False (Some (clk0 0)),
              mk_device 13 1 ''ac'' False (Some (clk0 0)),
              mk_device 20 2 ''ac'' True (Some 0),
              mk_device 21 2 ''ac'' False None,
              mk_device 22 2 ''fan'' True (Some 7),
              mk_device 30 3 ''ac'' False (Some (clk0 0)),
              mk_device 31 3 ''fan'' False (Some (clk0 0))],
            activity_logs := [\<lparr>user_id = 1, action = ''Emergency Shutdown'',
                                details = shutdown_details None (Some 0)\<rparr>]\<rparr>)"
  by (simp add: emergency_shutdown_def sdb_scope_floor0 devices_sdb logs_sdb
      log_activity_def mk_device_def)

section \<open>Emergency shutdown\<close>

lemma key_determines_row:
  "distinct (map f xs) \<Longrightarrow> x \<in> set xs \<Longrightarrow> y \<in> set xs \<Longrightarrow> f x = f y \<Longrightarrow> x = y"
  by (auto simp add: distinct_map inj_on_def)

lemma in_scope_building:
  "b \<noteq> 0 \<Longrightarrow> in_scope (Some b) None r = (\<not> is_critical r \<and> building_id r = b)"
  by (auto simp add: in_scope_def truthy_def)

lemma room_selected_iff:
  assumes "distinct (map r_id rs)" and "r \<in> set rs" and "r_id r = k"
  shows "k \<in> set (map r_id (filter P rs)) \<longleftrightarrow> P r"
proof
  assume "k \<in> set (map r_id (filter P rs))"
  then obtain q where q: "q \<in> set rs" "P q" "r_id q = k" by auto
  with assms have "q = r" using key_determines_row [of r_id rs q r] by simp
  with q show "P r" by simp
next
  assume "P r"
  with assms show "k \<in> set (map r_id (filter P rs))" by force
qed

text \<open>
  C7: an emergency shutdown scoped to building b (an identifier other than 0, no
  floor given) leaves every device whose room is a non-critical room of b off,
  stamped with the time of the call; it leaves every device whose room is critical
  or belongs to another building, and every device without a room, exactly as it
  was (the function has no force argument, so critical rooms are always exempt); it
  leaves the rooms as they were and appends exactly one "Emergency Shutdown" entry
  that records the scope.
\<close>

theorem emergency_shutdown_building:
  assumes "b \<noteq> 0" and "primary_keys db"
    and "emergency_shutdown clk (Some b) None (n, db) = (n', db')"
  shows "length (devices db') = length (devices db)
    \<and> (\<forall>i<length (devices db).
          (\<forall>r\<in>set (rooms db). r_id r = room_id (devices db ! i) \<longrightarrow>
             (if \<not> is_critical r \<and> building_id r = b
              then \<not> is_on (devices db' ! i)
                   \<and> devices db' ! i = (devices db ! i)\<lparr>is_on := False, last_switched := Some (clk n)\<rparr>
              else devices db' ! i = devices db ! i))
          \<and> ((\<forall>r\<in>set (rooms db). r_id r \<noteq> room_id (devices db ! i)) \<longrightarrow>
               devices db' ! i = devices db ! i))
    \<and> rooms db' = rooms db
    \<and> activity_logs db' = activity_logs db @
         [\<lparr>user_id = 1, action = ''Emergency Shutdown'',
           details = ''Building: '' @ str_int b @ '', Floor: None''\<rparr>]"
proof -
  let ?sel = "set (scope_rooms (Some b) None db)"
  let ?off = "\<lambda>d. if room_id d \<in> ?sel then d\<lparr>is_on := False, last_switched := Some (clk n)\<rparr> else d"
  have db': "db' = log_activity 1 ''Emergency Shutdown'' (shutdown_details (Some b) None)
                     (db\<lparr>devices := map ?off (devices db)\<rparr>)"
    using assms(3) by (simp add: emergency_shutdown_def)
  have dev: "devices db' = map ?off (devices db)"
    by (simp add: db' log_activity_def)
  have keys: "distinct (map r_id (rooms db))"
    using assms(2) by (simp add: primary_keys_def)
  have hit: "room_id d \<in> ?sel \<longleftrightarrow> (\<not> is_critical r \<and> building_id r = b)"
    if "r \<in> set (rooms db)" "r_id r = room_id d" for r d
    using room_selected_iff [OF keys that] in_scope_building [OF assms(1)]
    by (simp only: scope_rooms_def)
  have miss: "room_id d \<notin> ?sel" if "\<forall>r\<in>set (rooms db). r_id r \<noteq> room_id d" for d
    using that by (auto simp add: scope_rooms_def)
  have "(\<forall>r\<in>set (rooms db). r_id r = room_id (devices db ! i) \<longrightarrow>
             (if \<not> is_critical r \<and> building_id r = b
              then \<not> is_on (devices db' ! i)
                   \<and> devices db' ! i = (devices db ! i)\<lparr>is_on := False, last_switched := Some (clk n)\<rparr>
              else devices db' ! i = devices db ! i))
          \<and> ((\<forall>r\<in>set (rooms db). r_id r \<noteq> room_id (devices db ! i)) \<longrightarrow>
               devices db' ! i = devices db ! i)"
    if i: "i < length (devices db)" for i
  proof -
    have nth: "devices db' ! i = ?off (devices db ! i)"
      using i by (simp only: dev nth_map)
    show ?thesis
    proof (intro conjI ballI impI)
      fix r assume r: "r \<in> set (rooms db)" "r_id r = room_id (devices db ! i)"
      show "if \<not> is_critical r \<and> building_id r = b
              then \<not> is_on (devices db' ! i)
                   \<and> devices db' ! i = (devices db ! i)\<lparr>is_on := False, last_switched := Some (clk n)\<rparr>
              else devices db' ! i = devices db ! i"
        using hit [OF r] by (simp only: nth) simp
    next
      assume "\<forall>r\<in>set (rooms db). r_id r \<noteq> room_id (devices db ! i)"
      then show "devices db' ! i = devices db ! i"
        using miss [of "devices db ! i"] by (simp only: nth) simp
    qed
  qed
  then have "\<forall>i<length (devices db).
          (\<forall>r\<in>set (rooms db). r_id r = room_id (devices db ! i) \<longrightarrow>
             (if \<not> is_critical r \<and> building_id r = b
              then \<not> is_on (devices db' ! i)
                   \<and> devices db' ! i = (devices db ! i)\<lparr>is_on := False, last_switched := Some (clk n)\<rparr>
              else devices db' ! i = devices db ! i))
          \<and> ((\<forall>r\<in>set (rooms db). r_id r \<noteq> room_id (devices db ! i)) \<longrightarrow>
               devices db' ! i = devices db ! i)"
    by blast
  moreover have "rooms db' = rooms db" by (simp add: db' log_activity_def)
  moreover have "activity_logs db' = activity_logs db @
         [\<lparr>user_id = 1, action = ''Emergency Shutdown'',
           details = ''Building: '' @ str_int b @ '', Floor: None''\<rparr>]"
    by (simp add: db' log_activity_def shutdown_details_def str_opt_def)
  moreover have "length (devices db') = length (devices db)" by (simp only: dev length_map)
  ultimately show ?thesis by blast
qed

theorem emergency_shutdown_building_witness:
  "(1::int) \<noteq> 0 \<and> primary_keys sdb
   \<and> \<not> is_on (devices (snd (emergency_shutdown clk0 (Some 1) None (0, sdb))) ! 0)
   \<and> devices (snd (emergency_shutdown clk0 (Some 1) None (0, sdb))) ! 4 = devices sdb ! 4
   \<and> devices (snd (emergency_shutdown clk0 (Some 1) None (0, sdb))) ! 7 = devices sdb ! 7
   \<and> length (activity_logs (snd (emergency_shutdown clk0 (Some 1) None (0, sdb)))) = 1"
proof -
  have one: "(1::int) \<noteq> 0" by simp
  note t = emergency_shutdown_building [OF one primary_keys_sdb sdb_shutdown_building1]
  note at = t [THEN conjunct2, THEN conjunct1, THEN spec, THEN mp, THEN conjunct1, THEN bspec, THEN mp]
  have r0: "mk_room 1 0 False False 1 0 (Some (hours 9 - minutes 1)) \<in> set (rooms sdb)"
    and r1: "mk_room 2 0 False True 1 1 None \<in> set (rooms sdb)"
    and r2: "mk_room 3 4 True False 2 2 None \<in> set (rooms sdb)"
    by (simp_all add: rooms_sdb)
  have a: "\<not> is_on (devices (snd (emergency_shutdown clk0 (Some 1) None (0, sdb))) ! 0)"
    using at [of 0, OF _ r0] by (simp add: sdb_shutdown_building1 devices_sdb mk_device_def mk_room_def)
  have b: "devices (snd (emergency_shutdown clk0 (Some 1) None (0, sdb))) ! 4 = devices sdb ! 4"
    using at [of 4, OF _ r1] by (simp add: sdb_shutdown_building1 devices_sdb mk_device_def mk_room_def)
  have c: "devices (snd (emergency_shutdown clk0 (Some 1) None (0, sdb))) ! 7 = devices sdb ! 7"
    using at [of 7, OF _ r2] by (simp add: sdb_shutdown_building1 devices_sdb mk_device_def mk_room_def)
  have d: "length (activity_logs (snd (emergency_shutdown clk0 (Some 1) None (0, sdb)))) = 1"
    using t [THEN conjunct2, THEN conjunct2, THEN conjunct2]
    by (simp add: sdb_shutdown_building1 logs_sdb)
  from one primary_keys_sdb a b c d show ?thesis by blast
qed

lemma sdb_scope_building0: "scope_rooms (Some 0) None sdb = [1, 3]"
  by (simp add: scope_rooms_def in_scope_def truthy_def rooms_sdb mk_room_def)

lemma sdb_shutdown_building0:
  "emergency_shutdown clk0 (Some 0) None (0, sdb) =
     (1, sdb\<lparr>devices :=
             [mk_device 10 1 ''fan'' False (Some (clk0 0)),
              mk_device 11 1 ''ac'' False (Some (clk0 0)),
              mk_device 12 1 ''light'' False (Some (clk0 0)),
              mk_device 13 1 ''ac'' False (Some (clk0 0)),
              mk_device 20 2 ''ac'' True (Some 0),
              mk_device 21 2 ''ac'' False None,
              mk_device 22 2 ''fan'' True (Some 7),
              mk_device 30 3 ''ac'' False (Some (clk0 0)),
              mk_device 31 3 ''fan'' False (Some (clk0 0))],
            activity_logs := [\<lparr>user_id = 1, action = ''Emergency Shutdown'',
                                details = shutdown_details (Some 0) None\<rparr>]\<rparr>)"
  by (simp add: emergency_shutdown_def sdb_scope_building0 devices_sdb logs_sdb
      log_activity_def mk_device_def)

text \<open>
  A shutdown asked for building 0 is not scoped at all: in the sample it switches off
  the air conditioner 30 of room 3, which belongs to building 2.
\<close>

theorem emergency_shutdown_building_counterexample:
  "building_id (rooms sdb ! 2) = 2 \<and> room_id (devices sdb ! 7) = r_id (rooms sdb ! 2)
   \<and> is_on (devices sdb ! 7)
   \<and> \<not> is_on (devices (snd (emergency_shutdown clk0 (Some 0) None (0, sdb))) ! 7)
   \<and> details (last (activity_logs (snd (emergency_shutdown clk0 (Some 0) None (0, sdb)))))
       = ''Building: 0, Floor: None''"
  by (simp add: sdb_shutdown_building0 devices_sdb rooms_sdb mk_device_def mk_room_def
      shutdown_details_def str_opt_def str_int_def digits.simps digit_char_def)

text \<open>
  C10: a floor or building argument of 0 selects the same rooms as None does. In
  particular a shutdown with no building and floor 0 switches off the devices of
  every non-critical room, whatever its floor, and logs "Building: None, Floor: 0".
\<close>

theorem emergency_shutdown_falsy_scope:
  "devices (snd (emergency_shutdown clk building (Some 0) s))
     = devices (snd (emergency_shutdown clk building None s))
   \<and> devices (snd (emergency_shutdown clk (Some 0) fl s))
     = devices (snd (emergency_shutdown clk None fl s))
   \<and> devices (snd (emergency_shutdown clk None (Some 0) (n, db)))
     = map (\<lambda>d. if room_id d \<in> set (map r_id (filter (\<lambda>r. \<not> is_critical r) (rooms db)))
                then d\<lparr>is_on := False, last_switched := Some (clk n)\<rparr> else d) (devices db)
   \<and> details (last (activity_logs (snd (emergency_shutdown clk None (Some 0) (n, db)))))
     = ''Building: None, Floor: 0''"
  apply (simp add: emergency_shutdown_def scope_rooms_def in_scope_def truthy_def log_activity_def
      shutdown_details_def str_opt_def str_int_def split: prod.split)
  apply (simp add: digits.simps digit_char_def)?
  done

theorem emergency_shutdown_falsy_scope_witness:
  "r_floor (rooms sdb ! 2) = 2 \<and> room_id (devices sdb ! 8) = r_id (rooms sdb ! 2)
   \<and> is_on (devices sdb ! 8)
   \<and> \<not> is_on (devices (snd (emergency_shutdown clk0 None (Some 0) (0, sdb))) ! 8)
   \<and> is_on (devices (snd (emergency_shutdown clk0 None (Some 0) (0, sdb))) ! 6)"
  using emergency_shutdown_falsy_scope [of clk0 None "(0, sdb)" None 0 sdb,
      THEN conjunct2, THEN conjunct2, THEN conjunct1]
  by (simp add: sdb_shutdown_floor0 devices_sdb rooms_sdb mk_device_def mk_room_def)

section \<open>Rows outside the rooms a pass works on\<close>

lemma only_switched_refl: "only_switched d d"
  by (simp add: only_switched_def)

lemma only_switched_trans: "only_switched a b \<Longrightarrow> only_switched b c \<Longrightarrow> only_switched a c"
  by (cases a, cases b, cases c) (simp add: only_switched_def)

lemma only_switched_cols:
  "only_switched d d' \<Longrightarrow>
     d_id d' = d_id d \<and> room_id d' = room_id d \<and> device_name d' = device_name d
     \<and> device_type d' = device_type d \<and> status d' = status d"
  by (cases d, cases d') (simp add: only_switched_def)

lemma only_switched_update: "only_switched d (d\<lparr>is_on := b, last_switched := t\<rparr>)"
  by (simp add: only_switched_def)

lemma frame_refl: "list_all2 (frame_row S) ds ds"
  by (simp add: list_all2_same frame_row_def only_switched_refl)

lemma frame_row_trans: "frame_row S a b \<Longrightarrow> frame_row S b c \<Longrightarrow> frame_row S a c"
  using only_switched_trans [of a b c] only_switched_cols [of a b]
  by (auto simp add: frame_row_def)

lemma frame_trans:
  "list_all2 (frame_row S) as bs \<Longrightarrow> list_all2 (frame_row S) bs cs \<Longrightarrow> list_all2 (frame_row S) as cs"
  by (rule list_all2_trans [where ?P1.0 = "frame_row S" and ?P2.0 = "frame_row S"])
     (auto intro: frame_row_trans)

lemma frame_mono:
  "S \<subseteq> T \<Longrightarrow> list_all2 (frame_row S) ds ds' \<Longrightarrow> list_all2 (frame_row T) ds ds'"
  by (erule list_all2_mono) (auto simp add: frame_row_def)

lemma frame_keys: "list_all2 (frame_row S) ds ds' \<Longrightarrow> keys ds' = keys ds"
proof (induction ds ds' rule: list_all2_induct)
  case Nil
  then show ?case by (simp add: keys_def)
next
  case (Cons d ds d' ds')
  then show ?case using only_switched_cols [of d d'] by (simp add: keys_def frame_row_def)
qed

lemma keys_ids: "map d_id ds = map fst (keys ds)"
  by (simp add: keys_def comp_def)

lemma keys_set_is_on: "keys (set_is_on b t i ds) = keys ds"
  by (induction ds) (simp_all add: keys_def set_is_on_def)

lemma frame_set_is_on:
  "\<forall>d\<in>set ds. d_id d = i \<longrightarrow> room_id d \<in> S \<Longrightarrow>
   list_all2 (frame_row S) ds (set_is_on b t i ds)"
  unfolding set_is_on_def
  by (simp add: list_all2_map2 list_all2_same frame_row_def only_switched_update only_switched_refl)

lemma frame_outside:
  assumes "list_all2 (frame_row S) ds ds'" and "r \<notin> S"
  shows "filter (\<lambda>d. room_id d = r) ds' = filter (\<lambda>d. room_id d = r) ds"
  using assms
proof (induction ds ds' rule: list_all2_induct)
  case Nil
  then show ?case by simp
next
  case (Cons d ds d' ds')
  then show ?case using only_switched_cols [of d d'] by (auto simp add: frame_row_def)
qed

lemma frame_outside_nth:
  assumes "list_all2 (frame_row S) ds ds'" and "i < length ds" and "room_id (ds ! i) \<notin> S"
  shows "ds' ! i = ds ! i"
  using assms by (auto simp add: list_all2_conv_all_nth frame_row_def)

section \<open>Rule A: the empty-room pass\<close>

lemma auto_off_devices_rooms:
  "rooms (snd (auto_off_devices clk acts (n, db))) = rooms db"
  by (induction acts arbitrary: n db) (auto simp add: log_activity_def)

lemma auto_off_devices_logs:
  "activity_logs (snd (auto_off_devices clk acts (n, db))) =
     activity_logs db @ map auto_off_entry (auto_off_targets acts)"
  by (induction acts arbitrary: n db)
     (auto simp add: log_activity_def auto_off_targets_def auto_off_entry_def)

lemma switch_off_twice:
  "d\<lparr>is_on := False, last_switched := Some s\<rparr>\<lparr>is_on := False, last_switched := Some t\<rparr>
     = d\<lparr>is_on := False, last_switched := Some t\<rparr>"
  by simp

lemma auto_off_devices_rows:
  "list_all2 (\<lambda>d d'. if d_id d \<in> set (auto_off_targets acts)
                      then (\<exists>k. d' = d\<lparr>is_on := False, last_switched := Some (clk k)\<rparr>)
                      else d' = d)
     (devices db) (devices (snd (auto_off_devices clk acts (n, db))))"
proof (induction acts arbitrary: n db)
  case Nil
  then show ?case by (simp add: auto_off_targets_def list_all2_same)
next
  case (Cons a acts)
  obtain i ty where a: "a = (i, ty)" by (cases a)
  show ?case
  proof (cases "ty \<in> set auto_off_types")
    case False
    with a have "auto_off_targets (a # acts) = auto_off_targets acts"
      by (simp add: auto_off_targets_def)
    with a False Cons.IH show ?thesis by simp
  next
    case True
    let ?db1 = "log_activity 1 ''Auto OFF'' (auto_off_details i)
                  (db\<lparr>devices := set_is_on False (clk n) i (devices db)\<rparr>)"
    have tg: "set (auto_off_targets (a # acts)) = insert i (set (auto_off_targets acts))"
      using a True by (simp add: auto_off_targets_def)
    have run: "auto_off_devices clk (a # acts) (n, db) = auto_off_devices clk acts (Suc n, ?db1)"
      using a True by simp
    have d1: "devices ?db1 = set_is_on False (clk n) i (devices db)"
      by (simp add: log_activity_def)
    have step: "list_all2 (\<lambda>d d'. d' = (if d_id d = i
                   then d\<lparr>is_on := False, last_switched := Some (clk n)\<rparr> else d))
                 (devices db) (devices ?db1)"
      unfolding d1 by (simp add: set_is_on_def list_all2_map2 list_all2_same)
    have rest: "list_all2 (\<lambda>d d'. if d_id d \<in> set (auto_off_targets acts)
                      then (\<exists>k. d' = d\<lparr>is_on := False, last_switched := Some (clk k)\<rparr>)
                      else d' = d)
                 (devices ?db1) (devices (snd (auto_off_devices clk acts (Suc n, ?db1))))"
      by (rule Cons.IH)
    have "list_all2 (\<lambda>d d'. if d_id d \<in> insert i (set (auto_off_targets acts))
                      then (\<exists>k. d' = d\<lparr>is_on := False, last_switched := Some (clk k)\<rparr>)
                      else d' = d)
            (devices db) (devices (snd (auto_off_devices clk acts (Suc n, ?db1))))"
      using step rest
    proof (rule list_all2_trans [rotated])
      fix x y z
      assume xy: "y = (if d_id x = i then x\<lparr>is_on := False, last_switched := Some (clk n)\<rparr> else x)"
        and yz: "if d_id y \<in> set (auto_off_targets acts)
                 then \<exists>k. z = y\<lparr>is_on := False, last_switched := Some (clk k)\<rparr> else z = y"
      from xy have id: "d_id y = d_id x" by simp
      show "if d_id x \<in> insert i (set (auto_off_targets acts))
            then \<exists>k. z = x\<lparr>is_on := False, last_switched := Some (clk k)\<rparr> else z = x"
      proof (cases "d_id x \<in> set (auto_off_targets acts)")
        case True
        with yz id obtain k where "z = y\<lparr>is_on := False, last_switched := Some (clk k)\<rparr>" by auto
        with xy have "z = x\<lparr>is_on := False, last_switched := Some (clk k)\<rparr>" by (simp split: if_splits)
        with True show ?thesis by auto
      next
        case False
        with yz id have "z = y" by simp
        with xy False show ?thesis by auto
      qed
    qed
    with tg run show ?thesis by simp
  qed
qed

lemma auto_off_targets_subset: "set (auto_off_targets acts) \<subseteq> fst ` set acts"
  by (auto simp add: auto_off_targets_def)

lemma ids_in_rooms_keys:
  "d_id ` {d \<in> set ds. room_id d \<in> S} = fst ` {k \<in> set (keys ds). snd k \<in> S}"
  by (force simp add: keys_def)

lemma auto_off_devices_frame:
  assumes dist: "distinct (map d_id (devices db))"
    and acts: "\<forall>a\<in>set acts. \<exists>d\<in>set (devices db). d_id d = fst a \<and> room_id d \<in> S"
  shows "list_all2 (frame_row S) (devices db) (devices (snd (auto_off_devices clk acts (n, db))))"
proof -
  let ?ds = "devices db" and ?ds' = "devices (snd (auto_off_devices clk acts (n, db)))"
  have rows: "list_all2 (\<lambda>d d'. if d_id d \<in> set (auto_off_targets acts)
                      then (\<exists>k. d' = d\<lparr>is_on := False, last_switched := Some (clk k)\<rparr>)
                      else d' = d) ?ds ?ds'"
    by (rule auto_off_devices_rows)
  then have len: "length ?ds = length ?ds'" by (rule list_all2_lengthD)
  moreover have "frame_row S (?ds ! j) (?ds' ! j)" if j: "j < length ?ds" for j
  proof (cases "d_id (?ds ! j) \<in> set (auto_off_targets acts)")
    case False
    with list_all2_nthD [OF rows j] have "?ds' ! j = ?ds ! j" by simp
    then show ?thesis by (simp add: frame_row_def only_switched_refl)
  next
    case True
    with list_all2_nthD [OF rows j]
    obtain k where k: "?ds' ! j = (?ds ! j)\<lparr>is_on := False, last_switched := Some (clk k)\<rparr>"
      by auto
    from True auto_off_targets_subset obtain a where "a \<in> set acts" "fst a = d_id (?ds ! j)"
      by fastforce
    with acts obtain d where d: "d \<in> set ?ds" "d_id d = d_id (?ds ! j)" "room_id d \<in> S" by force
    from j have "?ds ! j \<in> set ?ds" by simp
    with dist d have "d = ?ds ! j" using key_determines_row [of d_id ?ds d "?ds ! j"] by simp
    with d have "room_id (?ds ! j) \<in> S" by simp
    with k show ?thesis by (simp add: frame_row_def only_switched_update)
  qed
  ultimately show ?thesis by (simp add: list_all2_conv_all_nth)
qed

lemma active_devices_in_room:
  "\<forall>a\<in>set (active_devices rid db). \<exists>d\<in>set (devices db). d_id d = fst a \<and> room_id d \<in> {rid}"
  by (auto simp add: active_devices_def)

lemma auto_off_rooms_append:
  "auto_off_rooms clk (xs @ ys) s = auto_off_rooms clk ys (auto_off_rooms clk xs s)"
proof (induction xs arbitrary: s)
  case Nil
  then show ?case by simp
next
  case (Cons x xs)
  then show ?case by (cases s) simp
qed

lemma auto_off_rooms_rooms:
  "rooms (snd (auto_off_rooms clk rs (n, db))) = rooms db"
proof (induction rs arbitrary: n db)
  case Nil
  then show ?case by simp
next
  case (Cons rm rs)
  obtain n1 db1 where s1: "auto_off_devices clk (active_devices (r_id rm) db) (n, db) = (n1, db1)"
    by (cases "auto_off_devices clk (active_devices (r_id rm) db) (n, db)")
  then have "rooms db1 = rooms db"
    using auto_off_devices_rooms [of clk "active_devices (r_id rm) db" n db] by simp
  with s1 Cons.IH [of n1 db1] show ?case by simp
qed

lemma auto_off_rooms_frame:
  assumes "distinct (map d_id (devices db))"
  shows "list_all2 (frame_row (r_id ` set rs)) (devices db)
           (devices (snd (auto_off_rooms clk rs (n, db))))"
  using assms
proof (induction rs arbitrary: n db)
  case Nil
  then show ?case by (simp add: frame_refl)
next
  case (Cons rm rs)
  obtain n1 db1 where s1: "auto_off_devices clk (active_devices (r_id rm) db) (n, db) = (n1, db1)"
    by (cases "auto_off_devices clk (active_devices (r_id rm) db) (n, db)")
  have "list_all2 (frame_row {r_id rm}) (devices db)
          (devices (snd (auto_off_devices clk (active_devices (r_id rm) db) (n, db))))"
    by (rule auto_off_devices_frame [OF Cons.prems active_devices_in_room])
  with s1 have f1: "list_all2 (frame_row {r_id rm}) (devices db) (devices db1)"
    by simp
  then have "keys (devices db1) = keys (devices db)" by (rule frame_keys)
  with Cons.prems have "distinct (map d_id (devices db1))" by (simp add: keys_ids)
  then have f2: "list_all2 (frame_row (r_id ` set rs)) (devices db1)
                   (devices (snd (auto_off_rooms clk rs (n1, db1))))"
    by (rule Cons.IH)
  have "list_all2 (frame_row (r_id ` set (rm # rs))) (devices db)
          (devices (snd (auto_off_rooms clk rs (n1, db1))))"
    by (rule frame_trans [OF frame_mono [OF _ f1] frame_mono [OF _ f2]]) auto
  with s1 show ?case by simp
qed

lemma auto_off_rooms_logs:
  assumes "distinct (map d_id (devices db))"
  shows "\<exists>ids. activity_logs (snd (auto_off_rooms clk rs (n, db))) =
                 activity_logs db @ map auto_off_entry ids
             \<and> set ids \<subseteq> d_id ` {d \<in> set (devices db). room_id d \<in> r_id ` set rs}"
  using assms
proof (induction rs arbitrary: n db)
  case Nil
  then show ?case by simp
next
  case (Cons rm rs)
  obtain n1 db1 where s1: "auto_off_devices clk (active_devices (r_id rm) db) (n, db) = (n1, db1)"
    by (cases "auto_off_devices clk (active_devices (r_id rm) db) (n, db)")
  let ?t = "auto_off_targets (active_devices (r_id rm) db)"
  have l1: "activity_logs db1 = activity_logs db @ map auto_off_entry ?t"
    using auto_off_devices_logs [of clk "active_devices (r_id rm) db" n db] s1 by simp
  have t: "set ?t \<subseteq> d_id ` {d \<in> set (devices db). room_id d \<in> r_id ` set (rm # rs)}"
    using auto_off_targets_subset [of "active_devices (r_id rm) db"]
    by (auto simp add: active_devices_def)
  have "list_all2 (frame_row {r_id rm}) (devices db)
          (devices (snd (auto_off_devices clk (active_devices (r_id rm) db) (n, db))))"
    by (rule auto_off_devices_frame [OF Cons.prems active_devices_in_room])
  with s1 have f1: "list_all2 (frame_row {r_id rm}) (devices db) (devices db1)"
    by simp
  then have k: "keys (devices db1) = keys (devices db)" by (rule frame_keys)
  with Cons.prems have "distinct (map d_id (devices db1))" by (simp add: keys_ids)
  from Cons.IH [OF this] obtain ids where
    ids: "activity_logs (snd (auto_off_rooms clk rs (n1, db1))) =
            activity_logs db1 @ map auto_off_entry ids"
      "set ids \<subseteq> d_id ` {d \<in> set (devices db1). room_id d \<in> r_id ` set rs}"
    by blast
  from ids(2) k have "set ids \<subseteq> d_id ` {d \<in> set (devices db). room_id d \<in> r_id ` set rs}"
    by (simp add: ids_in_rooms_keys)
  then have i2: "set ids \<subseteq> d_id ` {d \<in> set (devices db). room_id d \<in> r_id ` set (rm # rs)}"
    by auto
  have "activity_logs (snd (auto_off_rooms clk (rm # rs) (n, db))) =
          activity_logs db @ map auto_off_entry (?t @ ids)"
    using s1 ids(1) l1 by simp
  moreover have "set (?t @ ids) \<subseteq> d_id ` {d \<in> set (devices db). room_id d \<in> r_id ` set (rm # rs)}"
    using t i2 by simp
  ultimately show ?case by blast
qed

lemma list_all2_filter_same:
  assumes "list_all2 R xs ys" and "\<And>x y. R x y \<Longrightarrow> P x = P y"
  shows "list_all2 R (filter P xs) (filter P ys)"
  using assms(1)
proof (induction xs ys rule: list_all2_induct)
  case Nil
  then show ?case by simp
next
  case (Cons x xs y ys)
  with assms(2) [of x y] show ?case by simp
qed

lemma distinct_count_list:
  "distinct xs \<Longrightarrow> count_list xs x = (if x \<in> set xs then 1 else 0)"
  by (induction xs) auto

lemma auto_off_targets_active:
  "auto_off_targets (active_devices rid db) =
     map d_id (filter (\<lambda>d. room_id d = rid \<and> is_on d \<and> device_type d \<in> set auto_off_types)
                 (devices db))"
proof -
  have a: "auto_off_targets (map (\<lambda>d. (d_id d, device_type d)) ds) =
          map d_id (filter (\<lambda>d. device_type d \<in> set auto_off_types) ds)" for ds
    by (induction ds) (simp_all add: auto_off_targets_def)
  have b: "filter (\<lambda>d. device_type d \<in> set auto_off_types)
             (filter (\<lambda>d. room_id d = rid \<and> is_on d) ds) =
           filter (\<lambda>d. room_id d = rid \<and> is_on d \<and> device_type d \<in> set auto_off_types) ds"
    for ds
    by (induction ds) simp_all
  show ?thesis by (simp only: active_devices_def a b)
qed

lemma active_devices_rows:
  "active_devices rid db =
     map (\<lambda>d. (d_id d, device_type d))
       (filter is_on (filter (\<lambda>d. room_id d = rid) (devices db)))"
  by (simp add: active_devices_def conj_commute)

lemma auto_control_active:
  "auto_control_empty_rooms True clk (n, db) = auto_off_rooms clk (empty_rooms db) (Suc n, db)"
  by (simp add: auto_control_empty_rooms_def)

lemma empty_rooms_distinct:
  "primary_keys db \<Longrightarrow> distinct (map r_id (empty_rooms db))"
  by (simp add: primary_keys_def empty_rooms_def distinct_map_filter)

text \<open>What one pass does to the rows of one empty, non-critical room.\<close>

lemma auto_off_room_effect:
  assumes pk: "primary_keys db" and rm: "rm \<in> set (rooms db)"
    and emp: "occupancy rm = 0" and nc: "\<not> is_critical rm"
    and run: "auto_control_empty_rooms True clk (n, db) = (n', db')"
  shows "list_all2 (\<lambda>d d'. if is_on d \<and> device_type d \<in> set auto_off_types
                      then (\<exists>k. d' = d\<lparr>is_on := False, last_switched := Some (clk k)\<rparr>)
                      else d' = d)
           (filter (\<lambda>d. room_id d = r_id rm) (devices db))
           (filter (\<lambda>d. room_id d = r_id rm) (devices db'))"
    and "\<exists>new. activity_logs db' = activity_logs db @ map auto_off_entry new
           \<and> (\<forall>d\<in>set (devices db). room_id d = r_id rm \<longrightarrow>
                 count_list new (d_id d) =
                   (if is_on d \<and> device_type d \<in> set auto_off_types then 1 else 0))"
proof -
  let ?rid = "r_id rm"
  let ?inroom = "\<lambda>d. room_id d = ?rid"
  let ?tgt = "\<lambda>d. room_id d = ?rid \<and> is_on d \<and> device_type d \<in> set auto_off_types"
  have dist: "distinct (map d_id (devices db))" using pk by (simp add: primary_keys_def)
  from rm emp nc have "rm \<in> set (empty_rooms db)" by (simp add: empty_rooms_def)
  then obtain pre post where split: "empty_rooms db = pre @ rm # post"
    by (auto dest: split_list)
  from empty_rooms_distinct [OF pk] split
  have out: "?rid \<notin> r_id ` set pre" "?rid \<notin> r_id ` set post" by auto
  \<comment> \<open>the rooms before this one\<close>
  obtain n1 db1 where s1: "auto_off_rooms clk pre (Suc n, db) = (n1, db1)"
    by (cases "auto_off_rooms clk pre (Suc n, db)")
  have f1: "list_all2 (frame_row (r_id ` set pre)) (devices db) (devices db1)"
    using auto_off_rooms_frame [OF dist, of pre clk "Suc n"] s1 by simp
  have k1: "keys (devices db1) = keys (devices db)" by (rule frame_keys [OF f1])
  have dist1: "distinct (map d_id (devices db1))" using dist k1 by (simp add: keys_ids)
  have rows1: "filter ?inroom (devices db1) = filter ?inroom (devices db)"
    by (rule frame_outside [OF f1 out(1)])
  obtain ids1 where l1: "activity_logs db1 = activity_logs db @ map auto_off_entry ids1"
    and i1: "set ids1 \<subseteq> d_id ` {d \<in> set (devices db). room_id d \<in> r_id ` set pre}"
    using auto_off_rooms_logs [OF dist, of clk pre "Suc n"] s1 by auto
  \<comment> \<open>this room\<close>
  obtain n2 db2 where s2: "auto_off_devices clk (active_devices ?rid db1) (n1, db1) = (n2, db2)"
    by (cases "auto_off_devices clk (active_devices ?rid db1) (n1, db1)")
  have acts: "active_devices ?rid db1 = active_devices ?rid db"
    by (simp only: active_devices_rows rows1)
  let ?T = "auto_off_targets (active_devices ?rid db)"
  have T: "?T = map d_id (filter ?tgt (devices db))" by (rule auto_off_targets_active)
  have r2: "list_all2 (\<lambda>d d'. if d_id d \<in> set ?T
                      then (\<exists>k. d' = d\<lparr>is_on := False, last_switched := Some (clk k)\<rparr>)
                      else d' = d) (devices db1) (devices db2)"
    using auto_off_devices_rows [of "active_devices ?rid db1" clk db1 n1] s2 acts by simp
  have l2: "activity_logs db2 = activity_logs db1 @ map auto_off_entry ?T"
    using auto_off_devices_logs [of clk "active_devices ?rid db1" n1 db1] s2 acts by simp
  have f2: "list_all2 (frame_row {?rid}) (devices db1) (devices db2)"
    using auto_off_devices_frame [OF dist1 active_devices_in_room, of ?rid clk n1] s2 by simp
  have k2: "keys (devices db2) = keys (devices db1)" by (rule frame_keys [OF f2])
  have dist2: "distinct (map d_id (devices db2))" using dist1 k2 by (simp add: keys_ids)
  \<comment> \<open>the rooms after this one\<close>
  have whole: "auto_off_rooms clk post (n2, db2) = (n', db')"
    using run s1 s2 by (simp add: auto_control_active split auto_off_rooms_append)
  have f3: "list_all2 (frame_row (r_id ` set post)) (devices db2) (devices db')"
    using auto_off_rooms_frame [OF dist2, of post clk n2] whole by simp
  have rows3: "filter ?inroom (devices db') = filter ?inroom (devices db2)"
    by (rule frame_outside [OF f3 out(2)])
  obtain ids3 where l3: "activity_logs db' = activity_logs db2 @ map auto_off_entry ids3"
    and i3': "set ids3 \<subseteq> d_id ` {d \<in> set (devices db2). room_id d \<in> r_id ` set post}"
    using auto_off_rooms_logs [OF dist2, of clk post n2] whole by auto
  from i3' k2 k1
  have i3: "set ids3 \<subseteq> d_id ` {d \<in> set (devices db). room_id d \<in> r_id ` set post}"
    by (simp add: ids_in_rooms_keys)
  \<comment> \<open>a row of this room is a target exactly when it is on and of an auto-off type\<close>
  have tgt_iff: "d_id d \<in> set ?T \<longleftrightarrow> is_on d \<and> device_type d \<in> set auto_off_types"
    if d: "d \<in> set (devices db)" "room_id d = ?rid" for d
  proof
    assume "d_id d \<in> set ?T"
    then obtain e where e: "e \<in> set (devices db)" "?tgt e" "d_id e = d_id d"
      by (auto simp add: T)
    with dist d have "e = d" using key_determines_row [of d_id "devices db" e d] by simp
    with e show "is_on d \<and> device_type d \<in> set auto_off_types" by simp
  next
    assume "is_on d \<and> device_type d \<in> set auto_off_types"
    with d show "d_id d \<in> set ?T" by (auto simp add: T)
  qed
  have r2': "list_all2 (\<lambda>d d'. if d_id d \<in> set ?T
                      then (\<exists>k. d' = d\<lparr>is_on := False, last_switched := Some (clk k)\<rparr>)
                      else d' = d) (filter ?inroom (devices db1)) (filter ?inroom (devices db2))"
    by (rule list_all2_filter_same [OF r2]) (auto split: if_splits)
  have r: "list_all2 (\<lambda>d d'. if d_id d \<in> set ?T
                      then (\<exists>k. d' = d\<lparr>is_on := False, last_switched := Some (clk k)\<rparr>)
                      else d' = d) (filter ?inroom (devices db)) (filter ?inroom (devices db'))"
    using r2' by (simp only: rows1 rows3)
  show "list_all2 (\<lambda>d d'. if is_on d \<and> device_type d \<in> set auto_off_types
                      then (\<exists>k. d' = d\<lparr>is_on := False, last_switched := Some (clk k)\<rparr>)
                      else d' = d)
           (filter ?inroom (devices db)) (filter ?inroom (devices db'))"
  proof -
    let ?xs = "filter ?inroom (devices db)" and ?ys = "filter ?inroom (devices db')"
    have len: "length ?xs = length ?ys" by (rule list_all2_lengthD [OF r])
    moreover have "if is_on (?xs ! j) \<and> device_type (?xs ! j) \<in> set auto_off_types
                   then (\<exists>k. ?ys ! j = (?xs ! j)\<lparr>is_on := False, last_switched := Some (clk k)\<rparr>)
                   else ?ys ! j = ?xs ! j" if j: "j < length ?xs" for j
    proof -
      from j have "?xs ! j \<in> set ?xs" by (rule nth_mem)
      then have "?xs ! j \<in> set (devices db)" "room_id (?xs ! j) = ?rid" by auto
      from tgt_iff [OF this] list_all2_nthD [OF r j] show ?thesis by simp
    qed
    ultimately show ?thesis by (simp only: list_all2_conv_all_nth) blast
  qed
  show "\<exists>new. activity_logs db' = activity_logs db @ map auto_off_entry new
           \<and> (\<forall>d\<in>set (devices db). room_id d = r_id rm \<longrightarrow>
                 count_list new (d_id d) =
                   (if is_on d \<and> device_type d \<in> set auto_off_types then 1 else 0))"
  proof (intro exI conjI ballI impI)
    show "activity_logs db' = activity_logs db @ map auto_off_entry (ids1 @ ?T @ ids3)"
      by (simp add: l1 l2 l3)
  next
    fix d assume d: "d \<in> set (devices db)" "room_id d = ?rid"
    have other: "d_id d \<notin> d_id ` {e \<in> set (devices db). room_id e \<in> S}" if "?rid \<notin> S" for S
    proof
      assume "d_id d \<in> d_id ` {e \<in> set (devices db). room_id e \<in> S}"
      then obtain e where e: "e \<in> set (devices db)" "room_id e \<in> S" "d_id e = d_id d" by auto
      with dist d have "e = d" using key_determines_row [of d_id "devices db" e d] by simp
      with e d that show False by simp
    qed
    from other [OF out(1)] i1 have c1: "count_list ids1 (d_id d) = 0" by (auto simp add: count_list_0_iff)
    from other [OF out(2)] i3 have c3: "count_list ids3 (d_id d) = 0" by (auto simp add: count_list_0_iff)
    have "distinct ?T" using dist by (simp add: T distinct_map_filter)
    then have c2: "count_list ?T (d_id d) = (if d_id d \<in> set ?T then 1 else 0)"
      by (rule distinct_count_list)
    show "count_list (ids1 @ ?T @ ids3) (d_id d) =
            (if is_on d \<and> device_type d \<in> set auto_off_types then 1 else 0)"
      using c1 c2 c3 tgt_iff [OF d] by simp
  qed
qed

lemma sdb_empty_rooms:
  "empty_rooms sdb = [mk_room 1 0 False False 1 0 (Some (hours 9 - minutes 1))]"
  by (simp add: empty_rooms_def rooms_sdb mk_room_def)

lemma sdb_auto_off:
  "auto_control_empty_rooms True clk0 (0, sdb) =
     (3, sdb\<lparr>devices :=
             [mk_device 10 1 ''fan'' False (Some (clk0 1)),
              mk_device 11 1 ''ac'' True (Some 0),
              mk_device 12 1 ''light'' False (Some (clk0 2)),
              mk_device 13 1 ''ac'' False (Some 5),
              mk_device 20 2 ''ac'' True (Some 0),
              mk_device 21 2 ''ac'' False None,
              mk_device 22 2 ''fan'' True (Some 7),
              mk_device 30 3 ''ac'' True (Some 0),
              mk_device 31 3 ''fan'' True (Some 7)],
            activity_logs := [auto_off_entry 10, auto_off_entry 12]\<rparr>)"
  by (simp add: auto_control_active sdb_empty_rooms active_devices_def devices_sdb logs_sdb
      mk_device_def mk_room_def auto_off_types_def set_is_on_def log_activity_def
      auto_off_entry_def clk0_def)

lemma auto_off_entry_inj: "auto_off_entry i = auto_off_entry j \<Longrightarrow> i = j"
  by (rule str_int_inj) (simp add: auto_off_entry_def auto_off_details_def)

lemma count_list_map_inj:
  assumes "\<And>i j. g i = g j \<Longrightarrow> i = j"
  shows "count_list (map g xs) (g x) = count_list xs x"
  using assms by (induction xs) auto

lemma length_filter_two:
  assumes "\<forall>i\<in>set ids. P i \<longleftrightarrow> i = x \<or> i = y" and "x \<noteq> y"
  shows "length (filter P ids) = count_list ids x + count_list ids y"
  using assms by (induction ids) auto

lemma sdb_auto_off_entries:
  "auto_off_entry 10 = \<lparr>user_id = 1, action = ''Auto OFF'',
                         details = ''Empty room auto-control: Device 10''\<rparr>"
  "auto_off_entry 12 = \<lparr>user_id = 1, action = ''Auto OFF'',
                         details = ''Empty room auto-control: Device 12''\<rparr>"
  by (simp_all add: auto_off_entry_def auto_off_details_def str_int_def digits.simps digit_char_def)

text \<open>
  C6: in a room that is unoccupied and not critical and whose devices that are on
  are exactly a fan, an air conditioner and a light, one pass of the rule (switched
  on) leaves the fan and the light off with last_switched set to a reading of the
  clock and leaves every other row of the room, the air conditioner among them, as it
  was. Of the entries the pass appends to the activity log, exactly two name a device
  of the room: the entry (1, "Auto OFF", "Empty room auto-control: Device i") occurs
  once with the identifier of the fan and once with the identifier of the light.
\<close>

theorem auto_off_fan_ac_light:
  assumes pk: "primary_keys db" and rm: "rm \<in> set (rooms db)"
    and emp: "occupancy rm = 0" and nc: "\<not> is_critical rm"
    and on3: "set (filter (\<lambda>d. room_id d = r_id rm \<and> is_on d) (devices db)) = {f, a, l}"
    and tf: "device_type f = ''fan''" and ta: "device_type a = ''ac''"
    and tl: "device_type l = ''light''"
    and run: "auto_control_empty_rooms True clk (n, db) = (n', db')"
  shows "list_all2 (\<lambda>d d'. if d = f \<or> d = l
                      then (\<exists>k. d' = d\<lparr>is_on := False, last_switched := Some (clk k)\<rparr>)
                      else d' = d)
           (filter (\<lambda>d. room_id d = r_id rm) (devices db))
           (filter (\<lambda>d. room_id d = r_id rm) (devices db'))
     \<and> a \<in> set (filter (\<lambda>d. room_id d = r_id rm) (devices db')) \<and> is_on a
     \<and> (\<exists>new. activity_logs db' = activity_logs db @ new
           \<and> count_list new \<lparr>user_id = 1, action = ''Auto OFF'',
                 details = ''Empty room auto-control: Device '' @ str_int (d_id f)\<rparr> = 1
           \<and> count_list new \<lparr>user_id = 1, action = ''Auto OFF'',
                 details = ''Empty room auto-control: Device '' @ str_int (d_id l)\<rparr> = 1
           \<and> length (filter (\<lambda>e. \<exists>d\<in>set (devices db). room_id d = r_id rm
                         \<and> details e = ''Empty room auto-control: Device '' @ str_int (d_id d)) new)
               = 2)"
proof -
  let ?xs = "filter (\<lambda>d. room_id d = r_id rm) (devices db)"
  let ?ys = "filter (\<lambda>d. room_id d = r_id rm) (devices db')"
  have tgt: "(is_on d \<and> device_type d \<in> set auto_off_types) \<longleftrightarrow> (d = f \<or> d = l)"
    if d: "d \<in> set (devices db)" "room_id d = r_id rm" for d
  proof
    assume "is_on d \<and> device_type d \<in> set auto_off_types"
    with d on3 have "d \<in> {f, a, l}" and "device_type d \<noteq> ''ac''"
      by (auto simp add: auto_off_types_def)
    with ta show "d = f \<or> d = l" by auto
  next
    assume "d = f \<or> d = l"
    moreover from on3 have "f \<in> set (filter (\<lambda>d. room_id d = r_id rm \<and> is_on d) (devices db))"
      and "l \<in> set (filter (\<lambda>d. room_id d = r_id rm \<and> is_on d) (devices db))" by simp_all
    ultimately show "is_on d \<and> device_type d \<in> set auto_off_types"
      using tf tl by (auto simp add: auto_off_types_def)
  qed
  note eff = auto_off_room_effect [OF pk rm emp nc run]
  have rows: "list_all2 (\<lambda>d d'. if d = f \<or> d = l
                      then (\<exists>k. d' = d\<lparr>is_on := False, last_switched := Some (clk k)\<rparr>)
                      else d' = d) ?xs ?ys"
  proof -
    have len: "length ?xs = length ?ys" by (rule list_all2_lengthD [OF eff(1)])
    moreover have "if ?xs ! j = f \<or> ?xs ! j = l
                   then (\<exists>k. ?ys ! j = (?xs ! j)\<lparr>is_on := False, last_switched := Some (clk k)\<rparr>)
                   else ?ys ! j = ?xs ! j" if j: "j < length ?xs" for j
    proof -
      from j have "?xs ! j \<in> set ?xs" by (rule nth_mem)
      then have "?xs ! j \<in> set (devices db)" "room_id (?xs ! j) = r_id rm" by auto
      from tgt [OF this] list_all2_nthD [OF eff(1) j] show ?thesis by simp
    qed
    ultimately show ?thesis by (simp only: list_all2_conv_all_nth) blast
  qed
  from on3 have a_in: "a \<in> set (filter (\<lambda>d. room_id d = r_id rm \<and> is_on d) (devices db))" by simp
  then have a: "a \<in> set ?xs" "is_on a" by auto
  from ta tf tl have "a \<noteq> f" "a \<noteq> l" "f \<noteq> l" by auto
  have a_after: "a \<in> set ?ys"
  proof -
    from a(1) obtain j where j: "j < length ?xs" "?xs ! j = a" by (metis in_set_conv_nth)
    with list_all2_nthD [OF rows j(1)] \<open>a \<noteq> f\<close> \<open>a \<noteq> l\<close> have "?ys ! j = a" by simp
    moreover from j(1) list_all2_lengthD [OF rows] have "j < length ?ys" by simp
    ultimately show ?thesis by (metis nth_mem)
  qed
  from eff(2) obtain ids where ids: "activity_logs db' = activity_logs db @ map auto_off_entry ids"
    "\<forall>d\<in>set (devices db). room_id d = r_id rm \<longrightarrow>
        count_list ids (d_id d) = (if is_on d \<and> device_type d \<in> set auto_off_types then 1 else 0)"
    by blast
  from on3 have fl: "f \<in> set (devices db)" "room_id f = r_id rm" "l \<in> set (devices db)"
    "room_id l = r_id rm" by auto
  from pk have dist: "distinct (map d_id (devices db))" by (simp add: primary_keys_def)
  have idfl: "d_id f \<noteq> d_id l"
    using key_determines_row [OF dist fl(1) fl(3)] \<open>f \<noteq> l\<close> by auto
  have cf: "count_list ids (d_id f) = 1" using ids(2) fl tgt [of f] by simp
  have cl: "count_list ids (d_id l) = 1" using ids(2) fl tgt [of l] by simp
  have co: "count_list ids (d_id d) = 0"
    if "d \<in> set (devices db)" "room_id d = r_id rm" "d \<noteq> f" "d \<noteq> l" for d
    using ids(2) tgt [of d] that by auto
  have lit: "auto_off_entry i = \<lparr>user_id = 1, action = ''Auto OFF'',
                 details = ''Empty room auto-control: Device '' @ str_int i\<rparr>" for i
    by (simp add: auto_off_entry_def auto_off_details_def)
  have ef: "count_list (map auto_off_entry ids) (auto_off_entry (d_id f)) = 1"
    using count_list_map_inj [of auto_off_entry ids "d_id f"] auto_off_entry_inj cf by simp
  have el: "count_list (map auto_off_entry ids) (auto_off_entry (d_id l)) = 1"
    using count_list_map_inj [of auto_off_entry ids "d_id l"] auto_off_entry_inj cl by simp
  let ?P = "\<lambda>e. \<exists>d\<in>set (devices db). room_id d = r_id rm
                 \<and> details e = ''Empty room auto-control: Device '' @ str_int (d_id d)"
  let ?Q = "\<lambda>i. \<exists>d\<in>set (devices db). room_id d = r_id rm \<and> i = d_id d"
  have PQ: "?P (auto_off_entry i) = ?Q i" for i
    using str_int_inj by (auto simp add: lit)
  have "filter ?P (map auto_off_entry ids) = map auto_off_entry (filter ?Q ids)"
    by (simp only: filter_map comp_def PQ)
  then have len: "length (filter ?P (map auto_off_entry ids)) = length (filter ?Q ids)" by simp
  have Qiff: "\<forall>i\<in>set ids. ?Q i \<longleftrightarrow> i = d_id f \<or> i = d_id l"
  proof (intro ballI iffI)
    fix i assume i: "i \<in> set ids" and "?Q i"
    then obtain d where d: "d \<in> set (devices db)" "room_id d = r_id rm" "i = d_id d" by blast
    from i d(3) have "count_list ids (d_id d) \<noteq> 0" by (simp add: count_list_0_iff)
    with co [OF d(1,2)] have "d = f \<or> d = l" by blast
    with d(3) show "i = d_id f \<or> i = d_id l" by auto
  next
    fix i assume "i = d_id f \<or> i = d_id l"
    with fl show "?Q i" by auto
  qed
  have "length (filter ?Q ids) = 2"
    using length_filter_two [OF Qiff idfl] cf cl by simp
  with len have two: "length (filter ?P (map auto_off_entry ids)) = 2" by simp
  have "activity_logs db' = activity_logs db @ map auto_off_entry ids
      \<and> count_list (map auto_off_entry ids) \<lparr>user_id = 1, action = ''Auto OFF'',
                 details = ''Empty room auto-control: Device '' @ str_int (d_id f)\<rparr> = 1
      \<and> count_list (map auto_off_entry ids) \<lparr>user_id = 1, action = ''Auto OFF'',
                 details = ''Empty room auto-control: Device '' @ str_int (d_id l)\<rparr> = 1
      \<and> length (filter ?P (map auto_off_entry ids)) = 2"
    using ids(1) ef el two by (simp only: lit)
  then have "\<exists>new. activity_logs db' = activity_logs db @ new
           \<and> count_list new \<lparr>user_id = 1, action = ''Auto OFF'',
                 details = ''Empty room auto-control: Device '' @ str_int (d_id f)\<rparr> = 1
           \<and> count_list new \<lparr>user_id = 1, action = ''Auto OFF'',
                 details = ''Empty room auto-control: Device '' @ str_int (d_id l)\<rparr> = 1
           \<and> length (filter ?P new) = 2" by (rule exI)
  with rows a_after a(2) show ?thesis by blast
qed

theorem auto_off_fan_ac_light_witness:
  "primary_keys sdb
   \<and> occupancy (mk_room 1 0 False False 1 0 (Some (hours 9 - minutes 1))) = 0
   \<and> devices (snd (auto_control_empty_rooms True clk0 (0, sdb))) ! 0
       = mk_device 10 1 ''fan'' False (Some (clk0 1))
   \<and> devices (snd (auto_control_empty_rooms True clk0 (0, sdb))) ! 1 = devices sdb ! 1
   \<and> devices (snd (auto_control_empty_rooms True clk0 (0, sdb))) ! 2
       = mk_device 12 1 ''light'' False (Some (clk0 2))
   \<and> activity_logs (snd (auto_control_empty_rooms True clk0 (0, sdb)))
       = [\<lparr>user_id = 1, action = ''Auto OFF'', details = ''Empty room auto-control: Device 10''\<rparr>,
          \<lparr>user_id = 1, action = ''Auto OFF'', details = ''Empty room auto-control: Device 12''\<rparr>]
   \<and> length (filter (\<lambda>d. room_id d = 1) (devices (snd (auto_control_empty_rooms True clk0 (0, sdb)))))
       = 4"
proof -
  have r: "mk_room 1 0 False False 1 0 (Some (hours 9 - minutes 1)) \<in> set (rooms sdb)"
    by (simp add: rooms_sdb)
  have e: "occupancy (mk_room 1 0 False False 1 0 (Some (hours 9 - minutes 1))) = 0"
    and c: "\<not> is_critical (mk_room 1 0 False False 1 0 (Some (hours 9 - minutes 1)))"
    by (simp_all add: mk_room_def)
  have on3: "set (filter (\<lambda>d. room_id d = r_id (mk_room 1 0 False False 1 0 (Some (hours 9 - minutes 1)))
                        \<and> is_on d) (devices sdb))
             = {mk_device 10 1 ''fan'' True (Some 7), mk_device 11 1 ''ac'' True (Some 0),
                mk_device 12 1 ''light'' True (Some 7)}"
    by (simp add: devices_sdb mk_device_def mk_room_def)
  have t: "device_type (mk_device 10 1 ''fan'' True (Some 7)) = ''fan''"
    "device_type (mk_device 11 1 ''ac'' True (Some 0)) = ''ac''"
    "device_type (mk_device 12 1 ''light'' True (Some 7)) = ''light''"
    by (simp_all add: mk_device_def)
  note w = auto_off_fan_ac_light [OF primary_keys_sdb r e c on3 t sdb_auto_off]
  from w [THEN conjunct1, THEN list_all2_lengthD]
  have "length (filter (\<lambda>d. room_id d = 1) (devices (snd (auto_control_empty_rooms True clk0 (0, sdb)))))
          = 4"
    by (simp add: sdb_auto_off devices_sdb mk_device_def mk_room_def)
  with primary_keys_sdb e show ?thesis
    by (simp add: sdb_auto_off devices_sdb sdb_auto_off_entries)
qed

section \<open>Critical rooms\<close>

lemma filter_map_fixed:
  assumes "\<And>x. x \<in> set xs \<Longrightarrow> P (f x) = P x" and "\<And>x. x \<in> set xs \<Longrightarrow> P x \<Longrightarrow> f x = x"
  shows "filter P (map f xs) = filter P xs"
  using assms by (induction xs) auto

lemma critical_not_empty_room:
  assumes "distinct (map r_id (rooms db))" and "rm \<in> set (rooms db)" and "is_critical rm"
  shows "r_id rm \<notin> r_id ` set (empty_rooms db)"
proof
  assume "r_id rm \<in> r_id ` set (empty_rooms db)"
  then obtain q where q: "q \<in> set (rooms db)" "\<not> is_critical q" "r_id q = r_id rm"
    by (auto simp add: empty_rooms_def)
  with assms have "q = rm" using key_determines_row [of r_id "rooms db" q rm] by simp
  with q assms show False by simp
qed

lemma critical_not_in_scope:
  assumes "distinct (map r_id (rooms db))" and "rm \<in> set (rooms db)" and "is_critical rm"
  shows "r_id rm \<notin> set (scope_rooms building fl db)"
  using room_selected_iff [OF assms(1,2) refl, of "in_scope building fl"] assms(3)
  by (simp add: scope_rooms_def in_scope_def)

lemma sdb_overdue: "overdue_acs (clk0 0 - hours 8) sdb =
    [(11, 1, ''ac'', Some 0), (20, 2, ''ac'', Some 0), (30, 3, ''ac'', Some 0)]"
  by (simp add: overdue_acs_def overdue_def devices_sdb mk_device_def clk0_def hours_def)

lemma sdb_rotation:
  "ac_rotation_system True clk0 (0, sdb) =
     (3, sdb\<lparr>devices :=
             [mk_device 10 1 ''fan'' True (Some 7),
              mk_device 11 1 ''ac'' False (Some (clk0 1)),
              mk_device 12 1 ''light'' True (Some 7),
              mk_device 13 1 ''ac'' True (Some (clk0 1)),
              mk_device 20 2 ''ac'' False (Some (clk0 2)),
              mk_device 21 2 ''ac'' True (Some (clk0 2)),
              mk_device 22 2 ''fan'' True (Some 7),
              mk_device 30 3 ''ac'' True (Some 0),
              mk_device 31 3 ''fan'' True (Some 7)],
            activity_logs := [rotation_entry 1 11 13, rotation_entry 2 20 21]\<rparr>)"
proof -
  have "ac_rotation_system True clk0 (0, sdb) =
          rotate_acs clk0 [(11, 1, ''ac'', Some 0), (20, 2, ''ac'', Some 0), (30, 3, ''ac'', Some 0)]
            (1, sdb)"
    by (simp add: ac_rotation_system_def sdb_overdue)
  then show ?thesis
    by (simp add: find_replacement_def eligible_def devices_sdb logs_sdb mk_device_def
        set_is_on_def log_activity_def rotation_entry_def clk0_def)
qed

text \<open>
  The paths that read the critical flag: a pass of the empty-room rule (switched on
  or off) and an emergency shutdown of any scope leave the rows of the devices of a
  critical room exactly as they were.
\<close>

lemma critical_room_rows_kept:
  assumes "primary_keys db" and "rm \<in> set (rooms db)" and "is_critical rm"
  shows "filter (\<lambda>d. room_id d = r_id rm)
           (devices (snd (auto_control_empty_rooms auto_control_active clk (n, db))))
         = filter (\<lambda>d. room_id d = r_id rm) (devices db)
     \<and> filter (\<lambda>d. room_id d = r_id rm)
           (devices (snd (emergency_shutdown clk building fl (n, db))))
         = filter (\<lambda>d. room_id d = r_id rm) (devices db)"
proof
  from assms(1) have dr: "distinct (map r_id (rooms db))" and dd: "distinct (map d_id (devices db))"
    by (simp_all add: primary_keys_def)
  show "filter (\<lambda>d. room_id d = r_id rm)
           (devices (snd (auto_control_empty_rooms auto_control_active clk (n, db))))
         = filter (\<lambda>d. room_id d = r_id rm) (devices db)"
  proof (cases auto_control_active)
    case False
    then show ?thesis by (simp add: auto_control_empty_rooms_def)
  next
    case True
    have "list_all2 (frame_row (r_id ` set (empty_rooms db))) (devices db)
            (devices (snd (auto_off_rooms clk (empty_rooms db) (Suc n, db))))"
      using dd by (rule auto_off_rooms_frame)
    from frame_outside [OF this critical_not_empty_room [OF dr assms(2,3)]] True
    show ?thesis by (simp add: auto_control_empty_rooms_def)
  qed
  have out: "r_id rm \<notin> set (scope_rooms building fl db)"
    by (rule critical_not_in_scope [OF dr assms(2,3)])
  have "filter (\<lambda>d. room_id d = r_id rm)
          (map (\<lambda>d. if room_id d \<in> set (scope_rooms building fl db)
                    then d\<lparr>is_on := False, last_switched := Some (clk n)\<rparr> else d) (devices db))
        = filter (\<lambda>d. room_id d = r_id rm) (devices db)"
    using out by (intro filter_map_fixed) auto
  then show "filter (\<lambda>d. room_id d = r_id rm)
           (devices (snd (emergency_shutdown clk building fl (n, db))))
         = filter (\<lambda>d. room_id d = r_id rm) (devices db)"
    by (simp add: emergency_shutdown_def log_activity_def)
qed

lemma critical_room_rows_kept_sample:
  "primary_keys sdb \<and> is_critical (mk_room 2 0 False True 1 1 None)
   \<and> filter (\<lambda>d. room_id d = 2) (devices (snd (auto_control_empty_rooms True clk0 (0, sdb))))
       = [mk_device 20 2 ''ac'' True (Some 0), mk_device 21 2 ''ac'' False None,
          mk_device 22 2 ''fan'' True (Some 7)]
   \<and> filter (\<lambda>d. room_id d = 2) (devices (snd (emergency_shutdown clk0 (Some 1) None (0, sdb))))
       = [mk_device 20 2 ''ac'' True (Some 0), mk_device 21 2 ''ac'' False None,
          mk_device 22 2 ''fan'' True (Some 7)]"
proof -
  have r: "mk_room 2 0 False True 1 1 None \<in> set (rooms sdb)" by (simp add: rooms_sdb)
  have c: "is_critical (mk_room 2 0 False True 1 1 None)" by (simp add: mk_room_def)
  have i: "r_id (mk_room 2 0 False True 1 1 None) = 2" by (simp add: mk_room_def)
  have f: "filter (\<lambda>d. room_id d = 2) (devices sdb)
       = [mk_device 20 2 ''ac'' True (Some 0), mk_device 21 2 ''ac'' False None,
          mk_device 22 2 ''fan'' True (Some 7)]"
    by (simp add: devices_sdb mk_device_def)
  note w = critical_room_rows_kept [OF primary_keys_sdb r c, of True clk0 0 "Some 1" None]
  from w primary_keys_sdb c show ?thesis by (simp only: i f) 
qed

text \<open>
  C1: no automated pass is to change is_on of a device in a critical room. The
  rotation rule never reads the flag: in the critical room 2 of the sample the air
  conditioner 20, running for nine hours, is switched off by a rotation pass and the
  idle one, 21, is switched on.
\<close>

theorem rotation_switches_critical_room:
  "is_critical (rooms sdb ! 1) \<and> room_id (devices sdb ! 4) = r_id (rooms sdb ! 1)
   \<and> is_on (devices sdb ! 4)
   \<and> \<not> is_on (devices (snd (ac_rotation_system True clk0 (0, sdb))) ! 4)
   \<and> room_id (devices sdb ! 5) = r_id (rooms sdb ! 1) \<and> \<not> is_on (devices sdb ! 5)
   \<and> is_on (devices (snd (ac_rotation_system True clk0 (0, sdb))) ! 5)"
  by (simp add: sdb_rotation devices_sdb rooms_sdb mk_device_def mk_room_def)

section \<open>The fifteen-minute threshold of the empty-room rule\<close>

text \<open>
  C5: the rule is to act on a room only when it has been empty for fifteen minutes
  (the source says so above the query, and computes \<open>empty_threshold\<close>), but the
  query selects on occupancy and the critical flag alone. Room 1 of the sample was
  left one minute before the pass, and its fan is switched off all the same.
\<close>

theorem auto_off_ignores_empty_duration:
  "occupancy (rooms sdb ! 0) = 0 \<and> \<not> is_critical (rooms sdb ! 0)
   \<and> last_exit_time (rooms sdb ! 0) = Some (clk0 0 - minutes 1)
   \<and> clk0 0 - minutes 1 > clk0 0 - minutes 15
   \<and> room_id (devices sdb ! 0) = r_id (rooms sdb ! 0) \<and> is_on (devices sdb ! 0)
   \<and> \<not> is_on (devices (snd (auto_control_empty_rooms True clk0 (0, sdb))) ! 0)"
  by (simp add: sdb_auto_off devices_sdb rooms_sdb mk_device_def mk_room_def clk0_def minutes_def)

section \<open>Rule B: the rotation pass\<close>

lemma oldest_in: "oldest ds = Some e \<Longrightarrow> e \<in> set ds"
  by (induction ds arbitrary: e) (auto split: option.splits if_splits)

lemma oldest_none: "oldest ds = None \<longleftrightarrow> ds = []"
  by (cases ds) (auto split: option.splits)

lemma eligible_room:
  "filter (eligible R) ds = filter (eligible R) (filter (\<lambda>d. room_id d = R) ds)"
  by (induction ds) (auto simp add: eligible_def)

lemma find_replacement_rows:
  assumes "filter (\<lambda>d. room_id d = R) (devices db1) = filter (\<lambda>d. room_id d = R) (devices db)"
  shows "filter (eligible R) (devices db1) = filter (eligible R) (devices db)"
    and "find_replacement R db1 = find_replacement R db"
proof -
  show "filter (eligible R) (devices db1) = filter (eligible R) (devices db)"
    using eligible_room [of R "devices db1"] eligible_room [of R "devices db"] assms
    by (simp only:)
  then show "find_replacement R db1 = find_replacement R db"
    by (simp only: find_replacement_def)
qed

lemma find_replacement_some:
  assumes "find_replacement rid db = Some rep"
  shows "\<exists>r\<in>set (devices db). d_id r = rep \<and> eligible rid r"
proof -
  from assms obtain r where r: "oldest (filter (eligible rid) (devices db)) = Some r" "d_id r = rep"
    by (auto simp add: find_replacement_def)
  from oldest_in [OF r(1)] r(2) show ?thesis by auto
qed

lemma find_replacement_none:
  "find_replacement rid db = None \<longleftrightarrow> filter (eligible rid) (devices db) = []"
  by (simp add: find_replacement_def oldest_none)

lemma frame_swap:
  assumes "\<forall>d\<in>set ds. d_id d = i \<or> d_id d = j \<longrightarrow> room_id d \<in> S"
  shows "list_all2 (frame_row S) ds (set_is_on b2 t2 j (set_is_on b1 t1 i ds))"
  using assms
  by (auto simp add: set_is_on_def list_all2_map2 list_all2_same frame_row_def only_switched_def)

lemma key_room:
  assumes "distinct (map d_id ds)" and "(i, rid) \<in> set (keys ds)" and "d \<in> set ds" and "d_id d = i"
  shows "room_id d = rid"
proof -
  from assms(2) obtain e where e: "e \<in> set ds" "d_id e = i" "room_id e = rid"
    by (auto simp add: keys_def)
  with assms have "d = e" using key_determines_row [of d_id ds d e] by simp
  with e show ?thesis by simp
qed

lemma rotate_acs_append:
  "rotate_acs clk (xs @ ys) s = rotate_acs clk ys (rotate_acs clk xs s)"
proof (induction xs arbitrary: s)
  case Nil
  then show ?case by simp
next
  case (Cons x xs)
  obtain i rid nm ls where "x = (i, rid, nm, ls)" by (cases x)
  with Cons show ?case by (cases s) simp
qed

lemma rotate_acs_frame:
  assumes "distinct (map d_id (devices db))"
    and "\<forall>e\<in>set os. (fst e, fst (snd e)) \<in> set (keys (devices db))"
    and "(\<forall>e\<in>set os. fst (snd e) \<noteq> R) \<or> filter (eligible R) (devices db) = []"
  shows "list_all2 (frame_row (- {R})) (devices db) (devices (snd (rotate_acs clk os (n, db))))
       \<and> (\<exists>rots. activity_logs (snd (rotate_acs clk os (n, db)))
                    = activity_logs db @ rotation_log rots
              \<and> (\<forall>rot\<in>set rots. fst rot \<noteq> R))"
  using assms
proof (induction os arbitrary: n db)
  case Nil
  have "activity_logs db = activity_logs db @ rotation_log [] \<and> (\<forall>rot\<in>set []. fst rot \<noteq> R)"
    by (simp add: rotation_log_def)
  then have "\<exists>rots. activity_logs db = activity_logs db @ rotation_log rots
                \<and> (\<forall>rot\<in>set rots. fst rot \<noteq> R)" by (rule exI)
  then show ?case by (simp add: frame_refl)
next
  case (Cons e os)
  obtain i rid nm ls where e: "e = (i, rid, nm, ls)" by (cases e)
  from Cons.prems(2) e
  have valid: "\<forall>e\<in>set os. (fst e, fst (snd e)) \<in> set (keys (devices db))"
    and ie: "(i, rid) \<in> set (keys (devices db))" by simp_all
  show ?case
  proof (cases "find_replacement rid db")
    case None
    from Cons.prems(3)
    have quiet: "(\<forall>e\<in>set os. fst (snd e) \<noteq> R) \<or> filter (eligible R) (devices db) = []"
      by auto
    have run: "rotate_acs clk (e # os) (n, db) = rotate_acs clk os (n, db)"
      using e None by simp
    show ?thesis unfolding run by (rule Cons.IH [OF Cons.prems(1) valid quiet])
  next
    case (Some rep)
    then obtain r where r: "r \<in> set (devices db)" "d_id r = rep" "eligible rid r"
      using find_replacement_some by blast
    have ne: "rid \<noteq> R"
    proof
      assume "rid = R"
      with r have "r \<in> set (filter (eligible R) (devices db))" by simp
      moreover from Cons.prems(3) e \<open>rid = R\<close> have "filter (eligible R) (devices db) = []"
        by auto
      ultimately show False by simp
    qed
    define db1 where "db1 = log_activity 1 ''AC Rotation'' (rotation_details rid i rep)
        (db\<lparr>devices := set_is_on True (clk n) rep (set_is_on False (clk n) i (devices db))\<rparr>)"
    have d1: "devices db1 = set_is_on True (clk n) rep (set_is_on False (clk n) i (devices db))"
      by (simp add: db1_def log_activity_def)
    have l1: "activity_logs db1 = activity_logs db @ rotation_log [(rid, i, rep)]"
      by (simp add: db1_def log_activity_def rotation_log_def rotation_entry_def)
    have run: "rotate_acs clk (e # os) (n, db) = rotate_acs clk os (Suc n, db1)"
      using e Some by (simp add: db1_def)
    have rooms_ij: "\<forall>d\<in>set (devices db). d_id d = i \<or> d_id d = rep \<longrightarrow> room_id d \<in> - {R}"
    proof (intro ballI impI)
      fix d assume d: "d \<in> set (devices db)" and c: "d_id d = i \<or> d_id d = rep"
      from c show "room_id d \<in> - {R}"
      proof
        assume "d_id d = i"
        from key_room [OF Cons.prems(1) ie d this] ne show ?thesis by simp
      next
        assume "d_id d = rep"
        with r d Cons.prems(1) have "d = r"
          using key_determines_row [of d_id "devices db" d r] by simp
        with r ne show ?thesis by (simp add: eligible_def)
      qed
    qed
    have f1: "list_all2 (frame_row (- {R})) (devices db) (devices db1)"
      unfolding d1 by (rule frame_swap [OF rooms_ij])
    then have k1: "keys (devices db1) = keys (devices db)" by (rule frame_keys)
    with Cons.prems(1) have dist1: "distinct (map d_id (devices db1))" by (simp add: keys_ids)
    from valid k1 have valid1: "\<forall>e\<in>set os. (fst e, fst (snd e)) \<in> set (keys (devices db1))"
      by simp
    have rows1: "filter (\<lambda>d. room_id d = R) (devices db1) = filter (\<lambda>d. room_id d = R) (devices db)"
      by (rule frame_outside [OF f1]) simp
    have quiet1: "(\<forall>e\<in>set os. fst (snd e) \<noteq> R) \<or> filter (eligible R) (devices db1) = []"
      using Cons.prems(3) find_replacement_rows(1) [OF rows1] by auto
    from Cons.IH [OF dist1 valid1 quiet1, of "Suc n"] obtain rots where
      f2: "list_all2 (frame_row (- {R})) (devices db1)
             (devices (snd (rotate_acs clk os (Suc n, db1))))"
      and l2: "activity_logs (snd (rotate_acs clk os (Suc n, db1)))
                 = activity_logs db1 @ rotation_log rots"
      and o2: "\<forall>rot\<in>set rots. fst rot \<noteq> R"
      by blast
    have "activity_logs (snd (rotate_acs clk os (Suc n, db1)))
            = activity_logs db @ rotation_log ((rid, i, rep) # rots)
          \<and> (\<forall>rot\<in>set ((rid, i, rep) # rots). fst rot \<noteq> R)"
      using l1 l2 o2 ne by (simp add: rotation_log_def)
    then have "\<exists>rots. activity_logs (snd (rotate_acs clk os (Suc n, db1)))
            = activity_logs db @ rotation_log rots \<and> (\<forall>rot\<in>set rots. fst rot \<noteq> R)"
      by (rule exI)
    with frame_trans [OF f1 f2] show ?thesis unfolding run by simp
  qed
qed

lemma split_at_delim:
  "c \<notin> set xs \<Longrightarrow> c \<notin> set xs' \<Longrightarrow> xs @ c # ys = xs' @ c # ys' \<Longrightarrow> xs = xs' \<and> ys = ys'"
proof (induction xs arbitrary: xs')
  case Nil
  then show ?case by (cases xs') auto
next
  case (Cons x xs)
  then show ?case by (cases xs') auto
qed

lemma rotation_details_inj:
  assumes "rotation_details r x y = rotation_details r' x' y'"
  shows "r = r' \<and> x = x' \<and> y = y'"
proof -
  have colon: "CHR '':'' \<notin> set (str_int k)" and blank: "CHR '' '' \<notin> set (str_int k)" for k
    using str_int_plain [of _ k] by auto
  from assms
  have 1: "str_int r @ CHR '':'' # ('' AC '' @ str_int x @ '' -> AC '' @ str_int y)
         = str_int r' @ CHR '':'' # ('' AC '' @ str_int x' @ '' -> AC '' @ str_int y')"
    by (simp add: rotation_details_def)
  from split_at_delim [OF colon colon 1]
  have r: "str_int r = str_int r'"
    and 2: "str_int x @ CHR '' '' # (''-> AC '' @ str_int y)
          = str_int x' @ CHR '' '' # (''-> AC '' @ str_int y')"
    by simp_all
  from split_at_delim [OF blank blank 2]
  have x: "str_int x = str_int x'" and y: "str_int y = str_int y'" by simp_all
  from r x y show ?thesis by (simp add: str_int_inj)
qed

lemma rotation_entry_inj:
  "rotation_entry r x y = rotation_entry r' x' y' \<Longrightarrow> r = r' \<and> x = x' \<and> y = y'"
  by (rule rotation_details_inj) (simp add: rotation_entry_def)

lemma rotation_log_other_room:
  assumes "\<forall>rot\<in>set rots. fst rot \<noteq> R" and "e \<in> set (rotation_log rots)"
  shows "e \<noteq> rotation_entry R x y"
proof
  assume eq: "e = rotation_entry R x y"
  from assms(2) obtain rid i rep where rot: "(rid, i, rep) \<in> set rots" "e = rotation_entry rid i rep"
    by (auto simp add: rotation_log_def)
  with eq have "rid = R" using rotation_entry_inj [of rid i rep R x y] by simp
  with rot assms(1) show False by auto
qed

lemma overdue_acs_valid:
  "\<forall>e\<in>set (overdue_acs t db). (fst e, fst (snd e)) \<in> set (keys (devices db))"
  by (auto simp add: overdue_acs_def keys_def)

lemma control_sstores: "control_store sstores = sdb"
  by (simp add: sstores_def)

lemma main_sstores: "main_store sstores = db0"
  by (simp add: sstores_def)

lemma sstores_rotation:
  "hourly_ac_rotation True clk0 (0, sstores) =
     (3, sstores\<lparr>control_store := snd (ac_rotation_system True clk0 (0, sdb))\<rparr>)"
  by (simp add: hourly_ac_rotation_def sstores_def sdb_rotation)

text \<open>
  C3: an air conditioner that is on and overdue, in a room that holds no eligible
  replacement when the hourly job starts, is left as it is: the job changes no row of
  that room, so the unit is still on, and logs no rotation for the room. The job
  writes no alert either: the alerts are what they were before.
\<close>

theorem rotation_without_spare:
  assumes pk: "primary_keys (control_store w)"
    and a: "a \<in> set (devices (control_store w))"
    and od: "overdue (clk n - hours 8) a"
    and none: "filter (eligible (room_id a)) (devices (control_store w)) = []"
    and run: "hourly_ac_rotation ac_rotation_active clk (n, w) = (n', w')"
  shows "filter (\<lambda>d. room_id d = room_id a) (devices (control_store w'))
           = filter (\<lambda>d. room_id d = room_id a) (devices (control_store w))
       \<and> a \<in> set (devices (control_store w')) \<and> is_on a
       \<and> system_alerts (main_store w') = system_alerts (main_store w)
       \<and> (\<exists>new. activity_logs (control_store w') = activity_logs (control_store w) @ new
              \<and> (\<forall>e\<in>set new. \<forall>x y. e \<noteq> rotation_entry (room_id a) x y))"
proof -
  let ?db = "control_store w" and ?R = "room_id a"
  obtain m db' where r: "ac_rotation_system ac_rotation_active clk (n, ?db) = (m, db')"
    by (cases "ac_rotation_system ac_rotation_active clk (n, ?db)")
  with run have w': "w' = w\<lparr>control_store := db'\<rparr>" by (simp add: hourly_ac_rotation_def)
  have "list_all2 (frame_row (- {?R})) (devices ?db) (devices db')
       \<and> (\<exists>rots. activity_logs db' = activity_logs ?db @ rotation_log rots
              \<and> (\<forall>rot\<in>set rots. fst rot \<noteq> ?R))"
  proof (cases ac_rotation_active)
    case False
    with r have "db' = ?db" by (simp add: ac_rotation_system_def)
    moreover have "activity_logs ?db = activity_logs ?db @ rotation_log []
                   \<and> (\<forall>rot\<in>set []. fst rot \<noteq> ?R)" by (simp add: rotation_log_def)
    then have "\<exists>rots. activity_logs ?db = activity_logs ?db @ rotation_log rots
                   \<and> (\<forall>rot\<in>set rots. fst rot \<noteq> ?R)" by (rule exI)
    ultimately show ?thesis by (simp add: frame_refl)
  next
    case True
    from pk have dist: "distinct (map d_id (devices ?db))" by (simp add: primary_keys_def)
    from none have quiet: "(\<forall>e\<in>set (overdue_acs (clk n - hours 8) ?db). fst (snd e) \<noteq> ?R)
          \<or> filter (eligible ?R) (devices ?db) = []" by simp
    from True r have "db' = snd (rotate_acs clk (overdue_acs (clk n - hours 8) ?db) (Suc n, ?db))"
      by (simp add: ac_rotation_system_def)
    with rotate_acs_frame [OF dist overdue_acs_valid quiet, of clk "Suc n"] show ?thesis by simp
  qed
  then obtain rots where f: "list_all2 (frame_row (- {?R})) (devices ?db) (devices db')"
    and l: "activity_logs db' = activity_logs ?db @ rotation_log rots"
    and o: "\<forall>rot\<in>set rots. fst rot \<noteq> ?R" by blast
  have rows: "filter (\<lambda>d. room_id d = ?R) (devices db') = filter (\<lambda>d. room_id d = ?R) (devices ?db)"
    by (rule frame_outside [OF f]) simp
  from a have "a \<in> set (filter (\<lambda>d. room_id d = ?R) (devices ?db))" by simp
  with rows have "a \<in> set (filter (\<lambda>d. room_id d = ?R) (devices db'))" by simp
  then have a': "a \<in> set (devices db')" by simp
  from od have on: "is_on a" by (simp add: overdue_def)
  have "\<forall>e\<in>set (rotation_log rots). \<forall>x y. e \<noteq> rotation_entry ?R x y"
    using rotation_log_other_room [OF o] by blast
  with l have "\<exists>new. activity_logs db' = activity_logs ?db @ new
              \<and> (\<forall>e\<in>set new. \<forall>x y. e \<noteq> rotation_entry ?R x y)" by blast
  with rows a' on show ?thesis by (simp add: w')
qed

theorem rotation_without_spare_witness:
  "primary_keys sdb \<and> overdue (clk0 0 - hours 8) (mk_device 30 3 ''ac'' True (Some 0))
   \<and> filter (eligible 3) (devices sdb) = []
   \<and> filter (\<lambda>d. room_id d = 3)
        (devices (control_store (snd (hourly_ac_rotation True clk0 (0, sstores)))))
       = [mk_device 30 3 ''ac'' True (Some 0), mk_device 31 3 ''fan'' True (Some 7)]
   \<and> system_alerts (main_store (snd (hourly_ac_rotation True clk0 (0, sstores)))) = []"
proof -
  note c = control_sstores and m = main_sstores
  have pk: "primary_keys (control_store sstores)" by (simp add: c primary_keys_sdb)
  have a: "mk_device 30 3 ''ac'' True (Some 0) \<in> set (devices (control_store sstores))"
    by (simp add: c devices_sdb)
  have od: "overdue (clk0 0 - hours 8) (mk_device 30 3 ''ac'' True (Some 0))"
    by (simp add: overdue_def mk_device_def clk0_def hours_def)
  have i: "room_id (mk_device 30 3 ''ac'' True (Some 0)) = 3" by (simp add: mk_device_def)
  have none: "filter (eligible 3) (devices sdb) = []"
    by (simp add: eligible_def devices_sdb mk_device_def)
  then have none': "filter (eligible (room_id (mk_device 30 3 ''ac'' True (Some 0))))
                      (devices (control_store sstores)) = []"
    by (simp only: i c)
  have f: "filter (\<lambda>d. room_id d = 3) (devices sdb)
             = [mk_device 30 3 ''ac'' True (Some 0), mk_device 31 3 ''fan'' True (Some 7)]"
    by (simp add: devices_sdb mk_device_def)
  have al: "system_alerts db0 = []" by (simp add: db0_def)
  note w = rotation_without_spare [OF pk a od none' sstores_rotation]
  from w [THEN conjunct1] w [THEN conjunct2, THEN conjunct2, THEN conjunct2, THEN conjunct1]
  have "filter (\<lambda>d. room_id d = 3)
          (devices (control_store (snd (hourly_ac_rotation True clk0 (0, sstores)))))
         = [mk_device 30 3 ''ac'' True (Some 0), mk_device 31 3 ''fan'' True (Some 7)]"
    and "system_alerts (main_store (snd (hourly_ac_rotation True clk0 (0, sstores)))) = []"
    by (simp_all only: sstores_rotation snd_conv i c m f al)
  with primary_keys_sdb od none show ?thesis by blast
qed

text \<open>
  The air conditioner 30 of the sample is overdue and room 3 holds no spare: after
  the job it is still on, and there is no alert at all.
\<close>

theorem rotation_without_spare_counterexample:
  "overdue (clk0 0 - hours 8) (devices sdb ! 7)
   \<and> filter (eligible (room_id (devices sdb ! 7))) (devices sdb) = []
   \<and> is_on (devices (control_store (snd (hourly_ac_rotation True clk0 (0, sstores)))) ! 7)
   \<and> system_alerts (main_store (snd (hourly_ac_rotation True clk0 (0, sstores)))) = []"
  by (simp add: sstores_rotation sdb_rotation main_sstores db0_def devices_sdb mk_device_def
      overdue_def eligible_def clk0_def hours_def)

section \<open>Rule B: a rotation\<close>

lemma ball_append:
  "(\<forall>e\<in>set (xs @ ys). P e) \<longleftrightarrow> (\<forall>e\<in>set xs. P e) \<and> (\<forall>e\<in>set ys. P e)"
  by auto

lemma set_is_on_rows:
  "filter (\<lambda>d. room_id d = R) (set_is_on b t i ds)
     = set_is_on b t i (filter (\<lambda>d. room_id d = R) ds)"
  by (induction ds) (simp_all add: set_is_on_def)

lemma oldest_some: "ds \<noteq> [] \<Longrightarrow> \<exists>e. oldest ds = Some e"
  by (cases "oldest ds") (simp_all add: oldest_none)

lemma overdue_acs_split:
  assumes dist: "distinct (map d_id (devices db))" and a: "a \<in> set (devices db)"
    and od: "overdue t a"
    and sole: "\<forall>d\<in>set (devices db). overdue t d \<and> room_id d = room_id a \<longrightarrow> d = a"
  shows "\<exists>pre post. overdue_acs t db
            = pre @ (d_id a, room_id a, device_name a, last_switched a) # post
          \<and> (\<forall>e\<in>set (pre @ post). fst (snd e) \<noteq> room_id a)"
proof -
  let ?ent = "\<lambda>d. (d_id d, room_id d, device_name d, last_switched d)"
  from dist have dd: "distinct (devices db)" by (simp add: distinct_map)
  from a obtain xs ys where ds: "devices db = xs @ a # ys" by (auto dest: split_list)
  with dd have out: "a \<notin> set xs" "a \<notin> set ys" by simp_all
  have other: "fst (snd e) \<noteq> room_id a"
    if "e \<in> set (map ?ent (filter (overdue t) zs))" "set zs \<subseteq> set (devices db)" "a \<notin> set zs"
    for e zs
  proof -
    from that(1) obtain d where d: "d \<in> set zs" "overdue t d" "e = ?ent d" by auto
    with that(2) have "d \<in> set (devices db)" by auto
    with sole d(2) have "room_id d = room_id a \<longrightarrow> d = a" by simp
    with d that(3) show ?thesis by auto
  qed
  have "overdue_acs t db = map ?ent (filter (overdue t) xs) @ ?ent a # map ?ent (filter (overdue t) ys)"
    using od by (simp add: overdue_acs_def ds)
  moreover have "\<forall>e\<in>set (map ?ent (filter (overdue t) xs) @ map ?ent (filter (overdue t) ys)).
                   fst (snd e) \<noteq> room_id a"
  proof -
    from ds have sx: "set xs \<subseteq> set (devices db)" and sy: "set ys \<subseteq> set (devices db)" by auto
    have "\<forall>e\<in>set (map ?ent (filter (overdue t) xs)). fst (snd e) \<noteq> room_id a"
      using other [OF _ sx out(1)] by blast
    moreover have "\<forall>e\<in>set (map ?ent (filter (overdue t) ys)). fst (snd e) \<noteq> room_id a"
      using other [OF _ sy out(2)] by blast
    ultimately show ?thesis unfolding ball_append by (rule conjI)
  qed
  ultimately show ?thesis by blast
qed

lemma sdb_rotation_at_eight_hours: "ac_rotation_system True clk8 (0, sdb) = (1, sdb)"
proof -
  have "overdue_acs (clk8 0 - hours 8) sdb = []"
    by (simp add: overdue_acs_def overdue_def devices_sdb mk_device_def clk8_def)
  then show ?thesis by (simp add: ac_rotation_system_def)
qed

lemma devices_sdb2:
  "devices sdb2 = [mk_device 40 1 ''ac'' True (Some 0), mk_device 41 1 ''ac'' True (Some 0),
                   mk_device 42 1 ''ac'' False (Some 5)]"
  by (simp add: sdb2_def)

lemma sdb2_rotation:
  "ac_rotation_system True clk0 (0, sdb2) =
     (3, sdb2\<lparr>devices :=
              [mk_device 40 1 ''ac'' True (Some (clk0 2)),
               mk_device 41 1 ''ac'' False (Some (clk0 2)),
               mk_device 42 1 ''ac'' True (Some (clk0 1))],
             activity_logs := [rotation_entry 1 40 42, rotation_entry 1 41 40]\<rparr>)"
proof -
  have "overdue_acs (clk0 0 - hours 8) sdb2 = [(40, 1, ''ac'', Some 0), (41, 1, ''ac'', Some 0)]"
    by (simp add: overdue_acs_def overdue_def devices_sdb2 mk_device_def clk0_def hours_def)
  then have "ac_rotation_system True clk0 (0, sdb2) =
          rotate_acs clk0 [(40, 1, ''ac'', Some 0), (41, 1, ''ac'', Some 0)] (1, sdb2)"
    by (simp add: ac_rotation_system_def)
  then show ?thesis
    by (simp add: find_replacement_def eligible_def devices_sdb2 sdb2_def mk_device_def
        set_is_on_def log_activity_def rotation_entry_def clk0_def)
qed

text \<open>
  C2: let an air conditioner be on and overdue, that is, last switched more than
  eight hours before the pass starts, let it be the only overdue unit of its room,
  and let the room hold at least one eligible replacement (same room, off, status
  active). After one pass of the rule (switched on) the overdue unit is off, one
  replacement \<open>r\<close> that was eligible before is on, both carry the same reading of the
  clock as last_switched, every other row of the room is as it was, and among the
  entries appended to the activity log exactly one is an "AC Rotation" entry of that
  room: it names the overdue unit and \<open>r\<close>.
\<close>

theorem rotation_swaps_sole_overdue_ac:
  assumes pk: "primary_keys db" and a: "a \<in> set (devices db)"
    and od: "overdue (clk n - hours 8) a"
    and sole: "\<forall>d\<in>set (devices db). overdue (clk n - hours 8) d \<and> room_id d = room_id a \<longrightarrow> d = a"
    and spare: "filter (eligible (room_id a)) (devices db) \<noteq> []"
    and run: "ac_rotation_system True clk (n, db) = (n', db')"
  shows "\<exists>r k. r \<in> set (devices db) \<and> eligible (room_id a) r
      \<and> list_all2 (\<lambda>d d'. d' = (if d = a then d\<lparr>is_on := False, last_switched := Some (clk k)\<rparr>
                               else if d = r then d\<lparr>is_on := True, last_switched := Some (clk k)\<rparr>
                               else d))
          (filter (\<lambda>d. room_id d = room_id a) (devices db))
          (filter (\<lambda>d. room_id d = room_id a) (devices db'))
      \<and> (\<exists>before after. activity_logs db'
              = activity_logs db @ before @ rotation_entry (room_id a) (d_id a) (d_id r) # after
            \<and> (\<forall>e\<in>set (before @ after). \<forall>x y. e \<noteq> rotation_entry (room_id a) x y))"
proof -
  let ?R = "room_id a" and ?t = "clk n - hours 8"
  let ?rows = "\<lambda>ds. filter (\<lambda>d. room_id d = ?R) ds"
  from pk have dist: "distinct (map d_id (devices db))" by (simp add: primary_keys_def)
  from overdue_acs_split [OF dist a od sole] obtain pre post where
    os: "overdue_acs ?t db = pre @ (d_id a, ?R, device_name a, last_switched a) # post"
    and others: "\<forall>e\<in>set (pre @ post). fst (snd e) \<noteq> ?R" by blast
  from overdue_acs_valid [of ?t db] os
  have v1: "\<forall>e\<in>set pre. (fst e, fst (snd e)) \<in> set (keys (devices db))"
    and v3: "\<forall>e\<in>set post. (fst e, fst (snd e)) \<in> set (keys (devices db))" by simp_all
  from others have q1: "(\<forall>e\<in>set pre. fst (snd e) \<noteq> ?R) \<or> filter (eligible ?R) (devices db) = []"
    by simp
  obtain n1 db1 where s1: "rotate_acs clk pre (Suc n, db) = (n1, db1)"
    by (cases "rotate_acs clk pre (Suc n, db)")
  from rotate_acs_frame [OF dist v1 q1, of clk "Suc n"] s1 obtain rots1 where
    f1: "list_all2 (frame_row (- {?R})) (devices db) (devices db1)"
    and l1: "activity_logs db1 = activity_logs db @ rotation_log rots1"
    and o1: "\<forall>rot\<in>set rots1. fst rot \<noteq> ?R" by auto
  have rows1: "?rows (devices db1) = ?rows (devices db)" by (rule frame_outside [OF f1]) simp
  from f1 have k1: "keys (devices db1) = keys (devices db)" by (rule frame_keys)
  from spare obtain r where old: "oldest (filter (eligible ?R) (devices db)) = Some r"
    using oldest_some by blast
  from oldest_in [OF old] have r: "r \<in> set (devices db)" "eligible ?R r" by simp_all
  have fr: "find_replacement ?R db1 = Some (d_id r)"
    using find_replacement_rows(2) [OF rows1] old by (simp add: find_replacement_def)
  define db2 where "db2 = log_activity 1 ''AC Rotation'' (rotation_details ?R (d_id a) (d_id r))
      (db1\<lparr>devices := set_is_on True (clk n1) (d_id r)
                          (set_is_on False (clk n1) (d_id a) (devices db1))\<rparr>)"
  have s2: "rotate_acs clk ((d_id a, ?R, device_name a, last_switched a) # post) (n1, db1)
              = rotate_acs clk post (Suc n1, db2)"
    using fr by (simp add: db2_def)
  have d2: "devices db2 = set_is_on True (clk n1) (d_id r)
                            (set_is_on False (clk n1) (d_id a) (devices db1))"
    by (simp add: db2_def log_activity_def)
  have l2: "activity_logs db2 = activity_logs db1 @ [rotation_entry ?R (d_id a) (d_id r)]"
    by (simp add: db2_def log_activity_def rotation_entry_def)
  have k2: "keys (devices db2) = keys (devices db)" by (simp add: d2 keys_set_is_on k1)
  with dist have dist2: "distinct (map d_id (devices db2))" by (simp add: keys_ids)
  from v3 k2 have v3': "\<forall>e\<in>set post. (fst e, fst (snd e)) \<in> set (keys (devices db2))" by simp
  have rows2: "?rows (devices db2) = set_is_on True (clk n1) (d_id r)
                 (set_is_on False (clk n1) (d_id a) (?rows (devices db)))"
    by (simp only: d2 set_is_on_rows rows1)
  from others have q3: "(\<forall>e\<in>set post. fst (snd e) \<noteq> ?R) \<or> filter (eligible ?R) (devices db2) = []"
    by simp
  have "rotate_acs clk (overdue_acs ?t db) (Suc n, db) = rotate_acs clk post (Suc n1, db2)"
    by (simp only: os rotate_acs_append s1 s2)
  moreover from run have "rotate_acs clk (overdue_acs ?t db) (Suc n, db) = (n', db')"
    by (simp add: ac_rotation_system_def)
  ultimately have "rotate_acs clk post (Suc n1, db2) = (n', db')" by simp
  then have final: "db' = snd (rotate_acs clk post (Suc n1, db2))" by simp
  from rotate_acs_frame [OF dist2 v3' q3, of clk "Suc n1"] final obtain rots3 where
    f3: "list_all2 (frame_row (- {?R})) (devices db2) (devices db')"
    and l3: "activity_logs db' = activity_logs db2 @ rotation_log rots3"
    and o3: "\<forall>rot\<in>set rots3. fst rot \<noteq> ?R" by auto
  have rows3: "?rows (devices db') = ?rows (devices db2)" by (rule frame_outside [OF f3]) simp
  from od r(2) have ne: "a \<noteq> r" by (auto simp add: overdue_def eligible_def)
  have ida: "d_id d = d_id a \<longleftrightarrow> d = a" if "d \<in> set (devices db)" for d
    using key_determines_row [OF dist that a] by auto
  have idr: "d_id d = d_id r \<longleftrightarrow> d = r" if "d \<in> set (devices db)" for d
    using key_determines_row [OF dist that r(1)] by auto
  have pt: "\<forall>d\<in>set (?rows (devices db)).
      (let d1 = (if d_id d = d_id a then d\<lparr>is_on := False, last_switched := Some (clk n1)\<rparr> else d)
       in (if d_id d1 = d_id r then d1\<lparr>is_on := True, last_switched := Some (clk n1)\<rparr> else d1))
      = (if d = a then d\<lparr>is_on := False, last_switched := Some (clk n1)\<rparr>
         else if d = r then d\<lparr>is_on := True, last_switched := Some (clk n1)\<rparr> else d)"
  proof
    fix d assume "d \<in> set (?rows (devices db))"
    then have d: "d \<in> set (devices db)" by simp
    from ida [OF d] idr [OF d] ida [OF r(1)] ne
    show "(let d1 = (if d_id d = d_id a then d\<lparr>is_on := False, last_switched := Some (clk n1)\<rparr> else d)
       in (if d_id d1 = d_id r then d1\<lparr>is_on := True, last_switched := Some (clk n1)\<rparr> else d1))
      = (if d = a then d\<lparr>is_on := False, last_switched := Some (clk n1)\<rparr>
         else if d = r then d\<lparr>is_on := True, last_switched := Some (clk n1)\<rparr> else d)"
      by (auto simp add: Let_def)
  qed
  have rows: "list_all2 (\<lambda>d d'. d' = (if d = a then d\<lparr>is_on := False, last_switched := Some (clk n1)\<rparr>
                               else if d = r then d\<lparr>is_on := True, last_switched := Some (clk n1)\<rparr>
                               else d))
          (?rows (devices db)) (?rows (devices db'))"
    unfolding rows3 rows2 set_is_on_def list_all2_map2 list_all2_same
    using pt by (auto simp add: Let_def)
  have logs: "activity_logs db' = activity_logs db @ rotation_log rots1
                 @ rotation_entry ?R (d_id a) (d_id r) # rotation_log rots3"
    by (simp add: l3 l2 l1)
  have "\<forall>e\<in>set (rotation_log rots1 @ rotation_log rots3). \<forall>x y. e \<noteq> rotation_entry ?R x y"
    unfolding ball_append
    using rotation_log_other_room [OF o1] rotation_log_other_room [OF o3] by blast
  with logs have "\<exists>before after. activity_logs db'
              = activity_logs db @ before @ rotation_entry ?R (d_id a) (d_id r) # after
            \<and> (\<forall>e\<in>set (before @ after). \<forall>x y. e \<noteq> rotation_entry ?R x y)" by blast
  with r rows show ?thesis by blast
qed

theorem rotation_swaps_sole_overdue_ac_witness:
  "primary_keys sdb \<and> overdue (clk0 0 - hours 8) (mk_device 11 1 ''ac'' True (Some 0))
   \<and> filter (eligible 1) (devices sdb) = [mk_device 13 1 ''ac'' False (Some 5)]
   \<and> length (filter (\<lambda>d. room_id d = 1) (devices (snd (ac_rotation_system True clk0 (0, sdb))))) = 4
   \<and> devices (snd (ac_rotation_system True clk0 (0, sdb))) ! 1
       = mk_device 11 1 ''ac'' False (Some (clk0 1))
   \<and> devices (snd (ac_rotation_system True clk0 (0, sdb))) ! 3
       = mk_device 13 1 ''ac'' True (Some (clk0 1))
   \<and> activity_logs (snd (ac_rotation_system True clk0 (0, sdb)))
       = [rotation_entry 1 11 13, rotation_entry 2 20 21]"
proof -
  have a: "mk_device 11 1 ''ac'' True (Some 0) \<in> set (devices sdb)" by (simp add: devices_sdb)
  have od: "overdue (clk0 0 - hours 8) (mk_device 11 1 ''ac'' True (Some 0))"
    by (simp add: overdue_def mk_device_def clk0_def hours_def)
  have i: "room_id (mk_device 11 1 ''ac'' True (Some 0)) = 1" by (simp add: mk_device_def)
  have sole: "\<forall>d\<in>set (devices sdb). overdue (clk0 0 - hours 8) d
                \<and> room_id d = room_id (mk_device 11 1 ''ac'' True (Some 0))
                \<longrightarrow> d = mk_device 11 1 ''ac'' True (Some 0)"
    by (simp add: devices_sdb overdue_def mk_device_def)
  have el: "filter (eligible 1) (devices sdb) = [mk_device 13 1 ''ac'' False (Some 5)]"
    by (simp add: eligible_def devices_sdb mk_device_def)
  then have spare: "filter (eligible (room_id (mk_device 11 1 ''ac'' True (Some 0)))) (devices sdb) \<noteq> []"
    by (simp only: i) simp
  note w = rotation_swaps_sole_overdue_ac [OF primary_keys_sdb a od sole spare sdb_rotation]
  then obtain r k where "list_all2 (\<lambda>d d'. d' =
        (if d = mk_device 11 1 ''ac'' True (Some 0)
         then d\<lparr>is_on := False, last_switched := Some (clk0 k)\<rparr>
         else if d = r then d\<lparr>is_on := True, last_switched := Some (clk0 k)\<rparr> else d))
      (filter (\<lambda>d. room_id d = room_id (mk_device 11 1 ''ac'' True (Some 0))) (devices sdb))
      (filter (\<lambda>d. room_id d = room_id (mk_device 11 1 ''ac'' True (Some 0)))
         (devices (sdb\<lparr>devices :=
             [mk_device 10 1 ''fan'' True (Some 7),
              mk_device 11 1 ''ac'' False (Some (clk0 1)),
              mk_device 12 1 ''light'' True (Some 7),
              mk_device 13 1 ''ac'' True (Some (clk0 1)),
              mk_device 20 2 ''ac'' False (Some (clk0 2)),
              mk_device 21 2 ''ac'' True (Some (clk0 2)),
              mk_device 22 2 ''fan'' True (Some 7),
              mk_device 30 3 ''ac'' True (Some 0),
              mk_device 31 3 ''fan'' True (Some 7)],
            activity_logs := [rotation_entry 1 11 13, rotation_entry 2 20 21]\<rparr>)))"
    by blast
  from list_all2_lengthD [OF this]
  have "length (filter (\<lambda>d. room_id d = 1) (devices (snd (ac_rotation_system True clk0 (0, sdb))))) = 4"
    by (simp add: sdb_rotation devices_sdb mk_device_def)
  with primary_keys_sdb od el show ?thesis
    by (simp add: sdb_rotation)
qed

text \<open>
  Two ways the rule differs from a rotation of every unit that has run for at least
  eight hours. After exactly eight hours a unit is not overdue: under \<open>clk8\<close> unit 11
  of the sample stays on although unit 13 is eligible. And with two overdue units in
  one room the first, once switched off, is the replacement taken for the second: in
  \<open>sdb2\<close> unit 40 is on again when the pass ends.
\<close>

theorem rotation_swaps_counterexample:
  "is_on (devices sdb ! 1) \<and> device_type (devices sdb ! 1) = ''ac''
   \<and> last_switched (devices sdb ! 1) = Some (clk8 0 - hours 8)
   \<and> eligible (room_id (devices sdb ! 1)) (devices sdb ! 3)
   \<and> is_on (devices (snd (ac_rotation_system True clk8 (0, sdb))) ! 1)
   \<and> overdue (clk0 0 - hours 8) (devices sdb2 ! 0)
   \<and> eligible (room_id (devices sdb2 ! 0)) (devices sdb2 ! 2)
   \<and> is_on (devices (snd (ac_rotation_system True clk0 (0, sdb2))) ! 0)"
  by (simp add: sdb_rotation_at_eight_hours sdb2_rotation devices_sdb devices_sdb2 mk_device_def
      overdue_def eligible_def clk0_def clk8_def hours_def)

end
